theory Spec2Isabelle
  imports Main "HOL-Library.Word" "HOL-Library.Sublist"
begin

unbundle bit_operations_syntax

section \<open>Data model of the BLE service\<close>

text \<open>
  A Node \<open>Buffer\<close> is a sequence of bytes; a JavaScript \<open>number\<close> that holds an
  integer is an \<open>int\<close>; a JavaScript string of one-byte code units is a \<open>string\<close>.
\<close>

type_synonym byte = "8 word"

text \<open>The object passed to the listeners of the \<open>data\<close> event: \<open>{ type, data }\<close>.\<close>

record inbound_frame =
  ftype :: byte
  fdata :: "byte list"

text \<open>A thrown JavaScript error; \<open>message\<close> may be absent (\<open>e?.message\<close>).\<close>

datatype js_error = JsError (message: "string option")

text \<open>
  The private fields of \<open>BleService\<close> (App.tsx, the service part), and two traces of its
  effects on the outside: \<open>emitted\<close>, the payloads of \<open>this.emit('data', ...)\<close>, oldest
  first, and \<open>tx\<close>, the calls of
  \<open>manager.writeCharacteristicWithResponseForDevice\<close>, oldest first, each as the device
  id and the base64 text written. The log lines (\<open>this.log\<close>) carry a wall-clock time
  stamp and are left out.
\<close>

record ble_state =
  buffer :: "byte list"
  subscription :: bool
  protocolOffset :: int
  isAuthorized :: bool
  setupPasscode :: string
  connectedDeviceId :: "string option"
  emitted :: "inbound_frame list"
  tx :: "(string \<times> string) list"

section \<open>Frame reassembler\<close>

text \<open>
  \<open>Buffer.indexOf(value)\<close> of Node: the index of the first occurrence of the byte
  sequence \<open>value\<close> in the buffer, or \<open>-1\<close> when there is none.
\<close>

fun indexOf :: "byte list \<Rightarrow> byte list \<Rightarrow> int" where
  "indexOf [] v = (if v = [] then 0 else - 1)"
| "indexOf (x # xs) v =
     (if prefix v (x # xs) then 0
      else (let r = indexOf xs v in if r = - 1 then - 1 else r + 1))"

definition headerSequence :: "byte list" where
  "headerSequence = [0x55, 0xAA, 0xEB, 0x90]"

text \<open>
  The \<open>while (headerIndex !== -1)\<close> loop of \<open>processBuffer\<close>, with the local variable
  \<open>headerIndex\<close> as second argument. \<open>Buffer.slice(n)\<close> is \<open>drop n\<close> and
  \<open>Buffer.slice(0, 300)\<close> is \<open>take 300\<close>; \<open>this.buffer[4]\<close> is read only when the
  buffer holds at least 300 bytes.
\<close>

function processLoop :: "ble_state \<Rightarrow> int \<Rightarrow> ble_state" where
  "processLoop s headerIndex =
     (if headerIndex \<noteq> - 1 then
        (let s1 = (if headerIndex > 0
                   then s\<lparr>buffer := drop (nat headerIndex) (buffer s)\<rparr> else s)
         in if length (buffer s1) < 300 then s1
            else
              (let frameType = buffer s1 ! 4;
                   frame = take 300 (buffer s1);
                   s2 = s1\<lparr>emitted := emitted s1 @ [\<lparr>ftype = frameType, fdata = frame\<rparr>]\<rparr>;
                   s3 = s2\<lparr>buffer := drop 300 (buffer s2)\<rparr>
               in processLoop s3 (indexOf (buffer s3) headerSequence)))
      else s)"
  by pat_completeness auto
termination
  by (relation "measure (\<lambda>(s, i). length (buffer s))") (auto simp: Let_def)

declare processLoop.simps [simp del]

definition processBuffer :: "ble_state \<Rightarrow> ble_state" where
  "processBuffer s = processLoop s (indexOf (buffer s) headerSequence)"

text \<open>
  The notification callback installed by \<open>connect\<close>: an error is logged and dropped; a
  missing or empty \<open>characteristic.value\<close> is falsy and skipped; otherwise the decoded
  bytes \<open>rawData\<close> are appended to the buffer and \<open>processBuffer\<close> runs. The two
  statements that append and process are \<open>appendAndProcess\<close>.
\<close>

definition appendAndProcess :: "ble_state \<Rightarrow> byte list \<Rightarrow> ble_state" where
  "appendAndProcess s rawData = processBuffer (s\<lparr>buffer := buffer s @ rawData\<rparr>)"

definition monitorCallback :: "ble_state \<Rightarrow> js_error option \<Rightarrow> byte list option \<Rightarrow> ble_state" where
  "monitorCallback s error val =
     (case error of
        Some e \<Rightarrow> s
      | None \<Rightarrow>
          (case val of
             None \<Rightarrow> s
           | Some rawData \<Rightarrow>
               if rawData = [] then s
               else appendAndProcess s rawData))"

text \<open>Delivering a list of chunks, in order, each through the callback.\<close>

definition feedChunks :: "ble_state \<Rightarrow> byte list list \<Rightarrow> ble_state" where
  "feedChunks s chunks = foldl (\<lambda>st c. monitorCallback st None (Some c)) s chunks"

text \<open>
  The fields of a new \<open>BleService\<close>, as their initialisers set them, with empty
  traces.
\<close>

definition initialState :: ble_state where
  "initialState =
     \<lparr>buffer = [], subscription = False, protocolOffset = 0, isAuthorized = False,
      setupPasscode = [], connectedDeviceId = None, emitted = [], tx = []\<rparr>"

text \<open>
  The chunk of the example scenario: ten zero bytes, a header with kind \<open>0x02\<close> followed
  by \<open>n\<close> zero bytes, then a header with kind \<open>0x03\<close> followed by 295 zero bytes.
\<close>

definition scenarioChunk :: "nat \<Rightarrow> byte list" where
  "scenarioChunk n =
     replicate 10 0x00 @ [0x55, 0xAA, 0xEB, 0x90] @ [0x02] @ replicate n 0x00
       @ [0x55, 0xAA, 0xEB, 0x90, 0x03] @ replicate 295 0x00"

text \<open>
  A service whose buffer holds three stray bytes, a whole frame of kind \<open>0x02\<close>, one
  more stray byte and the first six bytes of another frame.
\<close>

definition residualExample :: ble_state where
  "residualExample =
     initialState\<lparr>buffer := [0x01, 0x02, 0x03] @ take 300 (drop 10 (scenarioChunk 295))
                              @ [0x07, 0x55, 0xAA, 0xEB, 0x90, 0x02, 0x09]\<rparr>"

text \<open>
  The loop of \<open>processBuffer\<close> once more, as a function of the buffer alone that returns
  the frames cut off and the bytes left over. It is used in the proofs only;
  \<open>processBuffer_reassemble\<close> below shows that \<open>processBuffer\<close> computes it.
\<close>

function reassemble :: "byte list \<Rightarrow> inbound_frame list \<times> byte list" where
  "reassemble b =
     (if indexOf b headerSequence = - 1 then ([], b)
      else if length (drop (nat (indexOf b headerSequence)) b) < 300
      then ([], drop (nat (indexOf b headerSequence)) b)
      else
        (case reassemble (drop 300 (drop (nat (indexOf b headerSequence)) b)) of
           (fs, r) \<Rightarrow>
             (\<lparr>ftype = drop (nat (indexOf b headerSequence)) b ! 4,
               fdata = take 300 (drop (nat (indexOf b headerSequence)) b)\<rparr> # fs, r)))"
  by pat_completeness auto
termination
  by (relation "measure length") auto

declare reassemble.simps [simp del]

section \<open>Command encoder\<close>

text \<open>
  The \<open>while (frame.length < 19) frame.push(0x00)\<close> loop of \<open>createCommand\<close>.
\<close>

function padFrame :: "int list \<Rightarrow> int list" where
  "padFrame frame = (if length frame < 19 then padFrame (frame @ [0x00]) else frame)"
  by pat_completeness auto
termination
  by (relation "measure (\<lambda>frame. 19 - length frame)") auto

declare padFrame.simps [simp del]

text \<open>
  The array \<open>frame\<close> of \<open>createCommand\<close> when it is handed to \<open>Buffer.from\<close>: header,
  command byte, payload length, payload, padding, and the sum of all these numbers
  masked with \<open>0xFF\<close>. The sum is exact here; JavaScript adds doubles, which is the same
  as long as the numbers and their sum stay below \<open>2^53\<close>, as they do for bytes.
\<close>

definition commandFrame :: "int \<Rightarrow> int list \<Rightarrow> int list" where
  "commandFrame commandByte payload =
     (let frame = padFrame ([0xAA, 0x55, 0x90, 0xEB] @ [commandByte]
                     @ [int (length payload)] @ payload);
          checksum = foldl (+) 0 frame
      in frame @ [checksum AND 0xFF])"

text \<open>\<open>Buffer.from(array)\<close> keeps the low eight bits of every number.\<close>

definition Buffer_from :: "int list \<Rightarrow> byte list" where
  "Buffer_from frame = map word_of_int frame"

text \<open>
  \<open>buf.toString('base64')\<close>: three bytes become four characters of the alphabet, six
  bits each; one or two bytes left over become two or three characters and padding.
\<close>

definition base64Alphabet :: string where
  "base64Alphabet = ''ABCDEFGHIJKLMNOPQRSTUVWXYZabcdefghijklmnopqrstuvwxyz0123456789+/''"

definition base64Char :: "nat \<Rightarrow> char" where
  "base64Char n = base64Alphabet ! n"

fun toString_base64 :: "byte list \<Rightarrow> string" where
  "toString_base64 [] = []"
| "toString_base64 [a] =
     [base64Char (unat a div 4), base64Char (unat a mod 4 * 16), CHR ''='', CHR ''='']"
| "toString_base64 [a, b] =
     [base64Char (unat a div 4), base64Char (unat a mod 4 * 16 + unat b div 16),
      base64Char (unat b mod 16 * 4), CHR ''='']"
| "toString_base64 (a # b # c # rest) =
     [base64Char (unat a div 4), base64Char (unat a mod 4 * 16 + unat b div 16),
      base64Char (unat b mod 16 * 4 + unat c div 64), base64Char (unat c mod 64)]
     @ toString_base64 rest"

text \<open>
  The bytes a base64 text stands for, as the receiver of a command reads them: the
  inverse of \<open>toString_base64\<close> (\<open>fromBase64_toString_base64\<close> below), \<open>None\<close> for a
  text that \<open>toString_base64\<close> does not produce.
\<close>

fun base64Index :: "string \<Rightarrow> char \<Rightarrow> nat option" where
  "base64Index [] c = None"
| "base64Index (x # xs) c =
     (if x = c then Some 0 else map_option Suc (base64Index xs c))"

fun fromBase64 :: "string \<Rightarrow> byte list option" where
  "fromBase64 [] = Some []"
| "fromBase64 (c0 # c1 # c2 # c3 # rest) =
     (case (base64Index base64Alphabet c0, base64Index base64Alphabet c1) of
        (Some s0, Some s1) \<Rightarrow>
          if c2 = CHR ''='' \<and> c3 = CHR ''='' \<and> rest = []
          then Some [of_nat (s0 * 4 + s1 div 16)]
          else
            (case base64Index base64Alphabet c2 of
               Some s2 \<Rightarrow>
                 if c3 = CHR ''='' \<and> rest = []
                 then Some [of_nat (s0 * 4 + s1 div 16), of_nat (s1 mod 16 * 16 + s2 div 4)]
                 else
                   (case (base64Index base64Alphabet c3, fromBase64 rest) of
                      (Some s3, Some bs) \<Rightarrow>
                        Some (of_nat (s0 * 4 + s1 div 16)
                              # of_nat (s1 mod 16 * 16 + s2 div 4)
                              # of_nat (s2 mod 4 * 64 + s3) # bs)
                    | _ \<Rightarrow> None)
             | None \<Rightarrow> None)
      | _ \<Rightarrow> None)"
| "fromBase64 _ = None"

text \<open>
  \<open>createCommand\<close> returns \<open>Buffer.from(frame).toString('base64')\<close>; \<open>commandBytes\<close> is
  the buffer \<open>Buffer.from(frame)\<close>, the bytes that go on the wire.
\<close>

definition commandBytes :: "int \<Rightarrow> int list \<Rightarrow> byte list" where
  "commandBytes commandByte payload = Buffer_from (commandFrame commandByte payload)"

definition createCommand :: "int \<Rightarrow> int list \<Rightarrow> string" where
  "createCommand commandByte payload = toString_base64 (commandBytes commandByte payload)"

text \<open>
  The encoder as the specification words it, on bytes, for comparison with
  \<open>commandBytes\<close>: a payload of more than 13 bytes is rejected; otherwise header,
  opcode, payload length and payload are padded with zero bytes to 19 bytes and the
  sum of these 19 bytes modulo 256 is appended.
\<close>

definition encode_spec :: "byte \<Rightarrow> byte list \<Rightarrow> byte list option" where
  "encode_spec opcode payload =
     (if length payload > 13 then None
      else (let body = [0xAA, 0x55, 0x90, 0xEB, opcode, of_nat (length payload)] @ payload;
                padded = body @ replicate (19 - length body) 0x00
            in Some (padded @ [of_nat (sum_list (map unat padded) mod 256)])))"

section \<open>Sending commands\<close>

text \<open>
  The transport is outside the program. Its answer to the \<open>n\<close>-th write of a session
  (counted from 0) is \<open>wr n\<close>: \<open>None\<close> when the write resolves, \<open>Some e\<close> when it rejects
  with \<open>e\<close>. A method that can throw returns \<open>Inl e\<close> for the error thrown, next to the
  state it leaves behind.
\<close>

type_synonym write_oracle = "nat \<Rightarrow> js_error option"

definition sendCommand ::
  "write_oracle \<Rightarrow> ble_state \<Rightarrow> string \<Rightarrow> int \<Rightarrow> int list \<Rightarrow> (js_error + unit) \<times> ble_state" where
  "sendCommand wr s deviceId commandByte payload =
     (let commandBase64 = createCommand commandByte payload;
          s1 = s\<lparr>tx := tx s @ [(deviceId, commandBase64)]\<rparr>
      in case wr (length (tx s)) of
           None \<Rightarrow> (Inr (), s1)
         | Some e \<Rightarrow> (Inl e, s1))"

text \<open>
  \<open>Buffer.from(password, 'utf-8')\<close> for a string of code units below 256: a code unit
  below 128 is one byte, any other is two.
\<close>

definition utf8_bytes :: "string \<Rightarrow> int list" where
  "utf8_bytes password =
     concat (map (\<lambda>c. let n = (of_char c :: int)
                       in if n < 128 then [n] else [192 + n div 64, 128 + n mod 64])
                 password)"

definition sendAuthorization ::
  "write_oracle \<Rightarrow> ble_state \<Rightarrow> string \<Rightarrow> string \<Rightarrow> (js_error + unit) \<times> ble_state" where
  "sendAuthorization wr s deviceId password =
     (let passwordBytes = utf8_bytes password
      in case sendCommand wr s deviceId 0x05 passwordBytes of
           (Inl e, s1) \<Rightarrow> (Inl e, s1)
         | (Inr u, s1) \<Rightarrow> (Inr (), s1\<lparr>isAuthorized := True\<rparr>))"

text \<open>A string is truthy when it is not empty.\<close>

definition sendControlCommand ::
  "write_oracle \<Rightarrow> ble_state \<Rightarrow> string \<Rightarrow> int \<Rightarrow> int \<Rightarrow> (js_error + unit) \<times> ble_state" where
  "sendControlCommand wr s deviceId register val =
     (case (if \<not> isAuthorized s \<and> setupPasscode s \<noteq> []
            then sendAuthorization wr s deviceId (setupPasscode s)
            else (Inr (), s)) of
        (Inl e, s1) \<Rightarrow> (Inl e, s1)
      | (Inr u, s1) \<Rightarrow>
          (case sendCommand wr s1 deviceId register [val] of
             (Inl e, s2) \<Rightarrow> (Inl e, s2)
           | (Inr u, s2) \<Rightarrow> sendCommand wr s2 deviceId 0x96 []))"

section \<open>Connecting and disconnecting\<close>

text \<open>\<open>String.prototype.startsWith\<close> and \<open>String.prototype.includes\<close>.\<close>

definition startsWith :: "string \<Rightarrow> string \<Rightarrow> bool" where
  "startsWith str search = prefix search str"

fun includes_str :: "string \<Rightarrow> string \<Rightarrow> bool" where
  "includes_str [] search = (search = [])"
| "includes_str (c # cs) search = (prefix search (c # cs) \<or> includes_str cs search)"

text \<open>
  \<open>connect\<close>: the fields are reset before the \<open>try\<close>. The two awaited calls of the
  transport, \<open>connectToDevice\<close> and \<open>discoverAllServicesAndCharacteristics\<close>, answer
  \<open>connectResult\<close> and \<open>discoverResult\<close> (\<open>Some e\<close> when the call rejects with \<open>e\<close>);
  the second is made only when the first resolves. The \<open>catch\<close> returns normally when
  the message of the error includes \<open>already connected\<close> and rethrows otherwise.
\<close>

definition connect ::
  "js_error option \<Rightarrow> js_error option \<Rightarrow> ble_state \<Rightarrow> string \<Rightarrow> (js_error + unit) \<times> ble_state" where
  "connect connectResult discoverResult s deviceId =
     (let s1 = s\<lparr>buffer := [], isAuthorized := False, protocolOffset := 0,
                 connectedDeviceId := Some deviceId\<rparr>
      in case (case connectResult of Some e \<Rightarrow> Some e | None \<Rightarrow> discoverResult) of
           None \<Rightarrow> (Inr (), s1\<lparr>subscription := True\<rparr>)
         | Some error \<Rightarrow>
             if (case message error of
                   Some m \<Rightarrow> includes_str m ''already connected''
                 | None \<Rightarrow> False)
             then (Inr (), s1)
             else (Inl error, s1))"

text \<open>
  \<open>disconnect\<close>: the subscription is removed (an error of \<open>remove\<close> is caught and
  dropped), the fields are reset, and the two awaited calls of the transport,
  \<open>isDeviceConnected\<close> (answering \<open>isConnectedResult\<close>, \<open>Inl e\<close> when it rejects) and
  \<open>cancelDeviceConnection\<close> (answering \<open>cancelResult\<close>), run inside a \<open>try\<close> whose
  \<open>catch\<close> only logs a warning.
\<close>

definition disconnect ::
  "js_error + bool \<Rightarrow> js_error option \<Rightarrow> ble_state \<Rightarrow> string \<Rightarrow> (js_error + unit) \<times> ble_state" where
  "disconnect isConnectedResult cancelResult s deviceId =
     (let s1 = (if subscription s then s\<lparr>subscription := False\<rparr> else s);
          s2 = s1\<lparr>buffer := [], isAuthorized := False, connectedDeviceId := None\<rparr>
      in case isConnectedResult of
           Inl e \<Rightarrow> (Inr (), s2)
         | Inr isConnected \<Rightarrow>
             if \<not> isConnected then (Inr (), s2)
             else (case cancelResult of
                     Some e \<Rightarrow> (Inr (), s2)
                   | None \<Rightarrow> (Inr (), s2)))"

definition setProtocolOffset :: "ble_state \<Rightarrow> int \<Rightarrow> ble_state" where
  "setProtocolOffset s offset = s\<lparr>protocolOffset := offset\<rparr>"

definition setSetupPasscode :: "ble_state \<Rightarrow> string \<Rightarrow> ble_state" where
  "setSetupPasscode s code = s\<lparr>setupPasscode := code\<rparr>"

definition getProtocolOffset :: "ble_state \<Rightarrow> int" where
  "getProtocolOffset s = protocolOffset s"

section \<open>Decoding frames on the device screen\<close>

text \<open>
  \<open>bufferToAscii\<close>: the characters of the bytes before the first zero byte;
  \<open>String.fromCharCode(byte)\<close> is the character with the code of the byte.
\<close>

fun bufferToAscii :: "byte list \<Rightarrow> string" where
  "bufferToAscii [] = []"
| "bufferToAscii (byte # buf) =
     (if byte = 0 then [] else char_of (unat byte) # bufferToAscii buf)"

text \<open>\<open>data.slice(start, stop)\<close> for \<open>0 \<le> start \<le> stop\<close>.\<close>

definition slice_buf :: "byte list \<Rightarrow> nat \<Rightarrow> nat \<Rightarrow> byte list" where
  "slice_buf data start stop = take (stop - start) (drop start data)"

text \<open>
  \<open>buf[i]\<close> is \<open>undefined\<close> (here \<open>None\<close>) outside the buffer, and the bitwise operators
  of JavaScript read \<open>undefined\<close> as 0. They work on 32-bit integers and their result is
  a signed 32-bit integer, so \<open>readUInt32LE\<close> returns the signed value of the word it
  assembles.
\<close>

definition byteAt :: "byte list \<Rightarrow> int \<Rightarrow> byte option" where
  "byteAt buf i = (if 0 \<le> i \<and> i < int (length buf) then Some (buf ! nat i) else None)"

definition toInt32 :: "byte option \<Rightarrow> 32 word" where
  "toInt32 v = (case v of None \<Rightarrow> 0 | Some b \<Rightarrow> ucast b)"

definition readUInt32LE :: "byte list \<Rightarrow> int \<Rightarrow> int" where
  "readUInt32LE buf offset =
     sint (toInt32 (byteAt buf offset)
           OR push_bit 8 (toInt32 (byteAt buf (offset + 1)))
           OR push_bit 16 (toInt32 (byteAt buf (offset + 2)))
           OR push_bit 24 (toInt32 (byteAt buf (offset + 3))))"

text \<open>
  The state of \<open>DeviceDetailScreen\<close> that \<open>handleData\<close> reads and writes. The four
  numbers are kept as the integer that \<open>readUInt32LE\<close> returned: the factor \<open>0.001\<close> and
  \<open>toFixed\<close> work on floating-point numbers and are not modelled. \<open>None\<close> is the initial
  \<open>'-'\<close> of a number and the initial \<open>null\<close> of a status.
\<close>

record screen_state =
  mounted :: bool
  devicePasscode :: string
  passcode :: string
  setupPasscode_shown :: string
  totalVoltage_raw :: "int option"
  capacityRemaining_raw :: "int option"
  nominalCapacity_raw :: "int option"
  cycles :: "int option"
  chargeStatus :: "bool option"
  dischargeStatus :: "bool option"

text \<open>\<open>x || '-'\<close> on strings.\<close>

definition orDash :: "string \<Rightarrow> string" where
  "orDash x = (if x = [] then ''-'' else x)"

text \<open>
  \<open>handleData\<close>, the listener of the \<open>data\<close> event; it works on the screen and, through
  \<open>setSetupPasscode\<close> and \<open>setProtocolOffset\<close>, on the service.
\<close>

definition handleData :: "screen_state \<times> ble_state \<Rightarrow> inbound_frame \<Rightarrow> screen_state \<times> ble_state" where
  "handleData st ev =
     (case st of (ui, ble) \<Rightarrow>
        if \<not> mounted ui then (ui, ble)
        else
          (let data = fdata ev in
           if ftype ev = 0x03 then
             (if length data \<ge> 134 then
                (let devPass = bufferToAscii (slice_buf data 62 (62 + 16));
                     pass = bufferToAscii (slice_buf data 97 (97 + 5));
                     setupPass = bufferToAscii (slice_buf data 118 (118 + 16));
                     ui1 = ui\<lparr>devicePasscode := orDash devPass,
                              passcode := orDash pass,
                              setupPasscode_shown := orDash setupPass\<rparr>;
                     ble1 = setSetupPasscode ble setupPass;
                     vendorId = bufferToAscii (slice_buf data 6 (6 + 16));
                     swVer = bufferToAscii (slice_buf data 30 (30 + 8))
                 in if startsWith vendorId ''JK_BD'' \<or> startsWith swVer ''11.''
                    then (ui1, setProtocolOffset ble1 32)
                    else if startsWith vendorId ''JK_B2A'' \<or> includes_str vendorId ''32S''
                    then (ui1, setProtocolOffset ble1 16)
                    else (ui1, setProtocolOffset ble1 0))
              else (ui, ble))
           else if ftype ev = 0x02 then
             (let offset = getProtocolOffset ble;
                  ui1 = (if int (length data) > 118 + offset + 4
                         then ui\<lparr>totalVoltage_raw := Some (readUInt32LE data (118 + offset))\<rparr>
                         else ui);
                  ui2 = (if int (length data) > 142 + offset + 4
                         then ui1\<lparr>capacityRemaining_raw := Some (readUInt32LE data (142 + offset))\<rparr>
                         else ui1);
                  ui3 = (if int (length data) > 146 + offset + 4
                         then ui2\<lparr>nominalCapacity_raw := Some (readUInt32LE data (146 + offset))\<rparr>
                         else ui2);
                  ui4 = (if int (length data) > 150 + offset + 4
                         then ui3\<lparr>cycles := Some (readUInt32LE data (150 + offset))\<rparr>
                         else ui3);
                  chargeIdx = 166 + offset;
                  dischargeIdx = 167 + offset
              in if int (length data) > max chargeIdx dischargeIdx
                 then (ui4\<lparr>chargeStatus := Some (byteAt data chargeIdx = Some 1),
                           dischargeStatus := Some (byteAt data dischargeIdx = Some 1)\<rparr>, ble)
                 else (ui4, ble))
           else (ui, ble)))"

text \<open>
  The screen as \<open>useState\<close> and \<open>useRef\<close> initialise it.
\<close>

definition initialScreen :: screen_state where
  "initialScreen =
     \<lparr>mounted = True, devicePasscode = ''-'', passcode = ''-'', setupPasscode_shown = ''-'',
      totalVoltage_raw = None, capacityRemaining_raw = None, nominalCapacity_raw = None,
      cycles = None, chargeStatus = None, dischargeStatus = None\<rparr>"

text \<open>
  Example data: a device-info frame of 300 bytes with the given vendor identifier at
  offset 6, firmware version at offset 30 and setup passcode at offset 118, each
  followed by zero bytes, and zero bytes elsewhere; and a status frame of 300 bytes
  with four given bytes at offset 118.
\<close>

definition asciiBytes :: "string \<Rightarrow> byte list" where
  "asciiBytes str = map (\<lambda>c. of_nat (of_char c)) str"

definition padTo :: "nat \<Rightarrow> byte list \<Rightarrow> byte list" where
  "padTo n bs = take n bs @ replicate (n - length bs) 0x00"

definition deviceInfoFrame :: "string \<Rightarrow> string \<Rightarrow> string \<Rightarrow> inbound_frame" where
  "deviceInfoFrame vendor firmware setupPass =
     \<lparr>ftype = 0x03,
      fdata = [0x55, 0xAA, 0xEB, 0x90, 0x03, 0x00] @ padTo 16 (asciiBytes vendor)
              @ replicate 8 0x00 @ padTo 8 (asciiBytes firmware)
              @ replicate 80 0x00 @ padTo 16 (asciiBytes setupPass)
              @ replicate 166 0x00\<rparr>"

definition statusFrame :: "byte list \<Rightarrow> inbound_frame" where
  "statusFrame voltageBytes =
     \<lparr>ftype = 0x02,
      fdata = [0x55, 0xAA, 0xEB, 0x90, 0x02, 0x00] @ replicate 112 0x00
              @ padTo 4 voltageBytes @ replicate 178 0x00\<rparr>"

section \<open>The verified control command\<close>

text \<open>\<open>safeSendCommand\<close>: \<open>sendCommand\<close> with an empty payload inside \<open>try { } catch (e) { }\<close>.\<close>

definition safeSendCommand :: "write_oracle \<Rightarrow> ble_state \<Rightarrow> string \<Rightarrow> int \<Rightarrow> ble_state" where
  "safeSendCommand wr s deviceId cmd = snd (sendCommand wr s deviceId cmd [])"

text \<open>
  What an attempt of \<open>sendRobustCommand\<close> shows outside: \<open>setStatus('Verifying i/3...')\<close>
  once its control command is sent, or \<open>console.log("Retry error", e)\<close> in the \<open>catch\<close>.
\<close>

datatype ui_event = StatusVerifying nat | ConsoleRetryError js_error

text \<open>
  The \<open>for (let i = 0; i < 3; i++)\<close> loop of \<open>sendRobustCommand\<close>, with \<open>i\<close> as an
  argument. The status that arriving frames write into \<open>currentStatusRef\<close> is outside
  the program: \<open>currentStatusRef i\<close> is the value read by the comparison of attempt
  \<open>i\<close>. The waits let time pass; the frames that arrive and the polls that the timer
  sends meanwhile are not modelled, but for the status they leave in
  \<open>currentStatusRef\<close>. The result is \<open>Inr b\<close> when the function returns \<open>b\<close> and would
  be \<open>Inl e\<close> if it threw \<open>e\<close>.
\<close>

function sendRobustLoop ::
  "write_oracle \<Rightarrow> (nat \<Rightarrow> bool option) \<Rightarrow> string \<Rightarrow> int \<Rightarrow> int \<Rightarrow> bool \<Rightarrow> nat
     \<Rightarrow> ble_state \<times> ui_event list \<Rightarrow> (js_error + bool) \<times> ble_state \<times> ui_event list" where
  "sendRobustLoop wr currentStatusRef deviceId register val targetBool i st =
     (case st of (s, evs) \<Rightarrow>
        if i < 3 then
          (case sendControlCommand wr s deviceId register val of
             (Inl e, s1) \<Rightarrow>
               sendRobustLoop wr currentStatusRef deviceId register val targetBool (i + 1)
                 (s1, evs @ [ConsoleRetryError e])
           | (Inr u, s1) \<Rightarrow>
               (let evs1 = evs @ [StatusVerifying (i + 1)];
                    s2 = safeSendCommand wr s1 deviceId 0x96
                in if currentStatusRef i = Some targetBool then (Inr True, s2, evs1)
                   else sendRobustLoop wr currentStatusRef deviceId register val targetBool
                          (i + 1) (s2, evs1)))
        else (Inr False, s, evs))"
  by pat_completeness auto
termination
  by (relation "measure (\<lambda>(wr, cur, d, r, v, t, i, st). 3 - i)") auto

declare sendRobustLoop.simps [simp del]

definition sendRobustCommand ::
  "write_oracle \<Rightarrow> (nat \<Rightarrow> bool option) \<Rightarrow> string \<Rightarrow> int \<Rightarrow> int
     \<Rightarrow> ble_state \<times> ui_event list \<Rightarrow> (js_error + bool) \<times> ble_state \<times> ui_event list" where
  "sendRobustCommand wr currentStatusRef deviceId register val st =
     (let targetBool = (val = 1)
      in sendRobustLoop wr currentStatusRef deviceId register val targetBool 0 st)"

text \<open>
  The run of \<open>sendRobustCommand\<close> attempt by attempt, for stating what the loop does.
  \<open>stateBeforeAttempt k\<close> is the service when attempt \<open>k\<close> (counted from 0) starts,
  had all attempts before it been made: an attempt is \<open>sendControlCommand\<close> and, when
  that returns, the \<open>safeSendCommand\<close> of the refresh \<open>0x96\<close>. \<open>attemptSent k\<close> says
  that the \<open>sendControlCommand\<close> of attempt \<open>k\<close> returns without throwing,
  \<open>attemptEvent k\<close> is the line attempt \<open>k\<close> shows, and \<open>attemptVerified k\<close> says that
  attempt \<open>k\<close> reaches its comparison and reads the target value there.
  \<open>attemptsMade\<close> counts up to the first verified attempt, or is 3.
\<close>

primrec stateBeforeAttempt ::
  "write_oracle \<Rightarrow> string \<Rightarrow> int \<Rightarrow> int \<Rightarrow> ble_state \<Rightarrow> nat \<Rightarrow> ble_state" where
  "stateBeforeAttempt wr deviceId register val s 0 = s"
| "stateBeforeAttempt wr deviceId register val s (Suc k) =
     (case sendControlCommand wr (stateBeforeAttempt wr deviceId register val s k)
             deviceId register val of
        (Inl e, s1) \<Rightarrow> s1
      | (Inr u, s1) \<Rightarrow> safeSendCommand wr s1 deviceId 0x96)"

definition attemptSent ::
  "write_oracle \<Rightarrow> string \<Rightarrow> int \<Rightarrow> int \<Rightarrow> ble_state \<Rightarrow> nat \<Rightarrow> bool" where
  "attemptSent wr deviceId register val s k =
     (case fst (sendControlCommand wr (stateBeforeAttempt wr deviceId register val s k)
                  deviceId register val) of
        Inl e \<Rightarrow> False
      | Inr u \<Rightarrow> True)"

definition attemptEvent ::
  "write_oracle \<Rightarrow> string \<Rightarrow> int \<Rightarrow> int \<Rightarrow> ble_state \<Rightarrow> nat \<Rightarrow> ui_event" where
  "attemptEvent wr deviceId register val s k =
     (case fst (sendControlCommand wr (stateBeforeAttempt wr deviceId register val s k)
                  deviceId register val) of
        Inl e \<Rightarrow> ConsoleRetryError e
      | Inr u \<Rightarrow> StatusVerifying (Suc k))"

definition attemptVerified ::
  "write_oracle \<Rightarrow> (nat \<Rightarrow> bool option) \<Rightarrow> string \<Rightarrow> int \<Rightarrow> int \<Rightarrow> ble_state \<Rightarrow> nat \<Rightarrow> bool" where
  "attemptVerified wr currentStatusRef deviceId register val s k =
     (attemptSent wr deviceId register val s k \<and> currentStatusRef k = Some (val = 1))"

definition attemptsMade ::
  "write_oracle \<Rightarrow> (nat \<Rightarrow> bool option) \<Rightarrow> string \<Rightarrow> int \<Rightarrow> int \<Rightarrow> ble_state \<Rightarrow> nat" where
  "attemptsMade wr currentStatusRef deviceId register val s =
     (if attemptVerified wr currentStatusRef deviceId register val s 0 then 1
      else if attemptVerified wr currentStatusRef deviceId register val s 1 then 2
      else 3)"

text \<open>
  The frames that \<open>sendControlCommand\<close> hands to the transport from the state \<open>s\<close>, in
  order: the authorization when the session is not authorized and a passcode is stored,
  then, if that write resolved, the control command, then, if that write resolved, the
  refresh \<open>0x96\<close>.
\<close>

definition controlCommandWrites ::
  "write_oracle \<Rightarrow> ble_state \<Rightarrow> string \<Rightarrow> int \<Rightarrow> int \<Rightarrow> (string \<times> string) list" where
  "controlCommandWrites wr s deviceId register val =
     (if \<not> isAuthorized s \<and> setupPasscode s \<noteq> []
      then (deviceId, createCommand 0x05 (utf8_bytes (setupPasscode s)))
           # (if wr (length (tx s)) = None
              then (deviceId, createCommand register [val])
                   # (if wr (Suc (length (tx s))) = None
                      then [(deviceId, createCommand 0x96 [])] else [])
              else [])
      else (deviceId, createCommand register [val])
           # (if wr (length (tx s)) = None then [(deviceId, createCommand 0x96 [])] else []))"

text \<open>
  Example surroundings: a transport whose \<open>k\<close>-th write rejects and whose other writes
  resolve, and an observed status that is \<open>false\<close> up to attempt \<open>k\<close> and \<open>true\<close> from
  attempt \<open>k\<close> on.
\<close>

definition writeFailsAt :: "nat \<Rightarrow> write_oracle" where
  "writeFailsAt k n = (if n = k then Some (JsError (Some ''write failed'')) else None)"

definition statusTrueFrom :: "nat \<Rightarrow> nat \<Rightarrow> bool option" where
  "statusTrueFrom k i = Some (k \<le> i)"

section \<open>Properties of the frame reassembler\<close>

subsection \<open>Searching the header\<close>

lemma prefix_append_short: "prefix v (b @ ys) \<Longrightarrow> length v \<le> length b \<Longrightarrow> prefix v b"
  by (auto simp: prefix_append)

lemma indexOf_ge: "- 1 \<le> indexOf b v"
  by (induction b) (auto simp: Let_def)

lemma indexOf_length: "0 \<le> indexOf b v \<Longrightarrow> nat (indexOf b v) + length v \<le> length b"
proof (induction b)
  case Nil
  then show ?case by (simp split: if_splits)
next
  case (Cons x xs)
  show ?case
  proof (cases "prefix v (x # xs)")
    case True
    then show ?thesis using prefix_length_le [of v "x # xs"] by simp
  next
    case False
    with Cons.prems have r: "indexOf xs v \<noteq> - 1" by (auto simp: Let_def split: if_splits)
    with indexOf_ge [of xs v] have "0 \<le> indexOf xs v" by linarith
    with Cons.IH False r show ?thesis by (simp add: Let_def nat_add_distrib)
  qed
qed

lemma indexOf_zero_iff: "indexOf b v = 0 \<longleftrightarrow> prefix v b"
proof (cases b)
  case Nil
  then show ?thesis by simp
next
  case (Cons x xs)
  with indexOf_ge [of xs v] show ?thesis by (auto simp: Let_def)
qed

lemma indexOf_prefix: "0 \<le> indexOf b v \<Longrightarrow> prefix v (drop (nat (indexOf b v)) b)"
proof (induction b)
  case Nil
  then show ?case by (simp split: if_splits)
next
  case (Cons x xs)
  show ?case
  proof (cases "prefix v (x # xs)")
    case True
    then show ?thesis by simp
  next
    case False
    with Cons.prems have r: "indexOf xs v \<noteq> - 1" by (auto simp: Let_def split: if_splits)
    with indexOf_ge [of xs v] have "0 \<le> indexOf xs v" by linarith
    with Cons.IH False r show ?thesis by (simp add: Let_def nat_add_distrib)
  qed
qed

lemma indexOf_none_iff: "indexOf b v = - 1 \<longleftrightarrow> \<not> sublist v b"
proof (induction b)
  case Nil
  then show ?case by simp
next
  case (Cons x xs)
  with indexOf_ge [of xs v] show ?case
    by (auto simp: Let_def sublist_Cons_right)
qed

lemma indexOf_append: "0 \<le> indexOf b v \<Longrightarrow> indexOf (b @ ys) v = indexOf b v"
proof (induction b)
  case Nil
  then have "v = []" by (simp split: if_splits)
  then show ?case by (simp add: indexOf_zero_iff)
next
  case (Cons x xs)
  show ?case
  proof (cases "prefix v (x # xs)")
    case True
    then have "prefix v ((x # xs) @ ys)" by (rule prefix_prefix)
    with True show ?thesis by simp
  next
    case False
    with Cons.prems have r: "indexOf xs v \<noteq> - 1" by (auto simp: Let_def split: if_splits)
    with indexOf_ge [of xs v] have r0: "0 \<le> indexOf xs v" by linarith
    from indexOf_length [OF r0] have len: "length v \<le> length (x # xs)" by simp
    have "\<not> prefix v ((x # xs) @ ys)"
    proof
      assume "prefix v ((x # xs) @ ys)"
      from this len have "prefix v (x # xs)"
        by (rule prefix_append_short)
      with False show False ..
    qed
    with False Cons.IH [OF r0] r show ?thesis by (simp add: Let_def)
  qed
qed

subsection \<open>The loop as a function of the buffer\<close>

lemma indexOf_nonneg: "indexOf b v \<noteq> - 1 \<Longrightarrow> 0 \<le> indexOf b v"
  using indexOf_ge [of b v] by linarith

lemma indexOf_drop_zero:
  assumes "indexOf b v \<noteq> - 1"
  shows "indexOf (drop (nat (indexOf b v)) b @ ys) v = 0"
proof -
  from assms have "0 \<le> indexOf b v" by (rule indexOf_nonneg)
  then have "prefix v (drop (nat (indexOf b v)) b)" by (rule indexOf_prefix)
  then have "prefix v (drop (nat (indexOf b v)) b @ ys)" by (rule prefix_prefix)
  then show ?thesis by (simp add: indexOf_zero_iff)
qed

lemma reassemble_header_first:
  assumes "prefix headerSequence c"
  shows "reassemble c =
     (if length c < 300 then ([], c)
      else (case reassemble (drop 300 c) of
              (fs, r) \<Rightarrow> (\<lparr>ftype = c ! 4, fdata = take 300 c\<rparr> # fs, r)))"
proof -
  from assms have "indexOf c headerSequence = 0" by (simp add: indexOf_zero_iff)
  then show ?thesis by (subst reassemble.simps) simp
qed

lemma reassemble_found:
  assumes "indexOf b headerSequence \<noteq> - 1"
  shows "reassemble (b @ ys) = reassemble (drop (nat (indexOf b headerSequence)) b @ ys)"
proof -
  let ?i = "indexOf b headerSequence"
  let ?c = "drop (nat ?i) b @ ys"
  from assms have nn: "0 \<le> ?i" by (rule indexOf_nonneg)
  then have app: "indexOf (b @ ys) headerSequence = ?i" by (rule indexOf_append)
  from indexOf_length [OF nn] have "nat ?i \<le> length b" by simp
  then have dr: "drop (nat ?i) (b @ ys) = ?c" by simp
  from nn have "prefix headerSequence (drop (nat ?i) b)" by (rule indexOf_prefix)
  then have pre: "prefix headerSequence ?c" by (rule prefix_prefix)
  have "reassemble (b @ ys) =
     (if length ?c < 300 then ([], ?c)
      else (case reassemble (drop 300 ?c) of
              (fs, r) \<Rightarrow> (\<lparr>ftype = ?c ! 4, fdata = take 300 ?c\<rparr> # fs, r)))"
    using assms by (subst reassemble.simps) (simp only: app dr if_False)
  also have "\<dots> = reassemble ?c"
    by (rule reassemble_header_first [OF pre, symmetric])
  finally show ?thesis .
qed

lemma reassemble_append:
  "reassemble (b @ ys) =
     (fst (reassemble b) @ fst (reassemble (snd (reassemble b) @ ys)),
      snd (reassemble (snd (reassemble b) @ ys)))"
proof (induction b rule: reassemble.induct)
  case (1 b)
  let ?i = "indexOf b headerSequence"
  let ?c = "drop (nat ?i) b"
  show ?case
  proof (cases "?i = - 1")
    case True
    then have "reassemble b = ([], b)" by (subst reassemble.simps) simp
    then show ?thesis by simp
  next
    case found: False
    then have pre: "prefix headerSequence ?c" by (simp add: indexOf_nonneg indexOf_prefix)
    have step: "reassemble (b @ ys) = reassemble (?c @ ys)"
      using found by (rule reassemble_found)
    show ?thesis
    proof (cases "length ?c < 300")
      case True
      with found have "reassemble b = ([], ?c)" by (subst reassemble.simps) simp
      with step show ?thesis by simp
    next
      case long: False
      obtain fs r where rb: "reassemble (drop 300 ?c) = (fs, r)" by (cases "reassemble (drop 300 ?c)")
      from found long rb have b: "reassemble b = (\<lparr>ftype = ?c ! 4, fdata = take 300 ?c\<rparr> # fs, r)"
        by (subst reassemble.simps) simp
      from pre have pre': "prefix headerSequence (?c @ ys)" by (rule prefix_prefix)
      from long have len: "\<not> length (?c @ ys) < 300" by simp
      from long have eqs: "(?c @ ys) ! 4 = ?c ! 4" "take 300 (?c @ ys) = take 300 ?c"
        "drop 300 (?c @ ys) = drop 300 ?c @ ys"
        by (simp_all add: nth_append)
      have ih: "reassemble (drop 300 ?c @ ys) =
          (fs @ fst (reassemble (r @ ys)), snd (reassemble (r @ ys)))"
        using "1.IH" [OF found long] rb by simp
      have "reassemble (?c @ ys) =
          (\<lparr>ftype = ?c ! 4, fdata = take 300 ?c\<rparr> # fs @ fst (reassemble (r @ ys)),
           snd (reassemble (r @ ys)))"
        by (subst reassemble_header_first [OF pre']) (simp only: len eqs ih if_False prod.case)
      with step b show ?thesis by simp
    qed
  qed
qed

lemma processLoop_reassemble:
  "headerIndex = indexOf (buffer s) headerSequence \<Longrightarrow>
   processLoop s headerIndex =
     s\<lparr>buffer := snd (reassemble (buffer s)),
       emitted := emitted s @ fst (reassemble (buffer s))\<rparr>"
proof (induction s headerIndex rule: processLoop.induct)
  case (1 s headerIndex)
  let ?b = "buffer s"
  let ?c = "drop (nat headerIndex) ?b"
  show ?case
  proof (cases "headerIndex = - 1")
    case True
    with "1.prems" have "reassemble ?b = ([], ?b)" by (subst reassemble.simps) simp
    with True show ?thesis by (subst processLoop.simps) simp
  next
    case found: False
    define s1 where "s1 = (if headerIndex > 0 then s\<lparr>buffer := ?c\<rparr> else s)"
    from found "1.prems" have "0 \<le> headerIndex" by (simp add: indexOf_nonneg)
    then have s1: "s1 = s\<lparr>buffer := ?c\<rparr>" by (cases "headerIndex = 0") (simp_all add: s1_def)
    show ?thesis
    proof (cases "length ?c < 300")
      case True
      with found "1.prems" have "reassemble ?b = ([], ?c)" by (subst reassemble.simps) simp
      moreover from found True have "processLoop s headerIndex = s1"
        by (subst processLoop.simps) (simp add: s1 s1_def [symmetric])
      ultimately show ?thesis by (simp add: s1)
    next
      case long: False
      obtain fs r where rb: "reassemble (drop 300 ?c) = (fs, r)" by (cases "reassemble (drop 300 ?c)")
      from found long rb "1.prems"
      have b: "reassemble ?b = (\<lparr>ftype = ?c ! 4, fdata = take 300 ?c\<rparr> # fs, r)"
        by (subst reassemble.simps) simp
      define s3 where "s3 = s1\<lparr>emitted := emitted s1 @ [\<lparr>ftype = buffer s1 ! 4, fdata = take 300 (buffer s1)\<rparr>],
                                 buffer := drop 300 (buffer s1)\<rparr>"
      from long have long1: "\<not> length (buffer s1) < 300" by (simp add: s1)
      have "processLoop s headerIndex = processLoop s3 (indexOf (buffer s3) headerSequence)"
        using found long1
        by (subst processLoop.simps) (simp add: Let_def s1_def [symmetric] s3_def)
      also have "\<dots> = s3\<lparr>buffer := snd (reassemble (buffer s3)),
                            emitted := emitted s3 @ fst (reassemble (buffer s3))\<rparr>"
        using "1.IH" [OF found s1_def long1 refl refl refl refl refl]
        by (simp add: s3_def)
      finally show ?thesis using rb by (simp add: s3_def s1 b)
    qed
  qed
qed


lemma processBuffer_reassemble:
  "processBuffer s =
     s\<lparr>buffer := snd (reassemble (buffer s)),
       emitted := emitted s @ fst (reassemble (buffer s))\<rparr>"
  unfolding processBuffer_def by (rule processLoop_reassemble) (rule refl)

lemma reassemble_residual:
  "sublist headerSequence (snd (reassemble b)) \<Longrightarrow>
     prefix headerSequence (snd (reassemble b)) \<and> length (snd (reassemble b)) < 300"
proof (induction b rule: reassemble.induct)
  case (1 b)
  let ?i = "indexOf b headerSequence"
  let ?c = "drop (nat ?i) b"
  show ?case
  proof (cases "?i = - 1")
    case True
    then have "reassemble b = ([], b)" by (subst reassemble.simps) simp
    with True "1.prems" show ?thesis by (simp add: indexOf_none_iff)
  next
    case found: False
    then have pre: "prefix headerSequence ?c" by (simp add: indexOf_nonneg indexOf_prefix)
    show ?thesis
    proof (cases "length ?c < 300")
      case True
      with found have "reassemble b = ([], ?c)" by (subst reassemble.simps) simp
      with pre True show ?thesis by simp
    next
      case long: False
      obtain fs r where rb: "reassemble (drop 300 ?c) = (fs, r)" by (cases "reassemble (drop 300 ?c)")
      from found long rb have b: "reassemble b = (\<lparr>ftype = ?c ! 4, fdata = take 300 ?c\<rparr> # fs, r)"
        by (subst reassemble.simps) simp
      with "1.IH" [OF found long] "1.prems" rb show ?thesis by simp
    qed
  qed
qed

lemma reassemble_idem: "reassemble (snd (reassemble b)) = ([], snd (reassemble b))"
proof (cases "sublist headerSequence (snd (reassemble b))")
  case True
  then have "prefix headerSequence (snd (reassemble b))" "length (snd (reassemble b)) < 300"
    using reassemble_residual by blast+
  then show ?thesis by (simp add: reassemble_header_first)
next
  case False
  then have "indexOf (snd (reassemble b)) headerSequence = - 1" by (simp add: indexOf_none_iff)
  then show ?thesis by (subst reassemble.simps) simp
qed

lemma monitorCallback_append:
  "monitorCallback (monitorCallback s None (Some xs)) None (Some ys) =
     monitorCallback s None (Some (xs @ ys))"
proof (cases "xs = [] \<or> ys = []")
  case True
  then show ?thesis by (auto simp: monitorCallback_def)
next
  case False
  with reassemble_append [of "buffer s @ xs" ys] show ?thesis
    by (simp add: monitorCallback_def appendAndProcess_def processBuffer_reassemble)
qed

lemma feedChunks_concat:
  "feedChunks s chunks = monitorCallback s None (Some (concat chunks))"
proof (induction chunks rule: rev_induct)
  case Nil
  show ?case by (simp add: feedChunks_def monitorCallback_def)
next
  case (snoc c chunks)
  have "feedChunks s (chunks @ [c]) = monitorCallback (feedChunks s chunks) None (Some c)"
    by (simp add: feedChunks_def)
  with snoc show ?case by (simp add: monitorCallback_append)
qed

lemma foldl_appendAndProcess_bytes:
  "foldl appendAndProcess s (map (\<lambda>x. [x]) stream) = feedChunks s (map (\<lambda>x. [x]) stream)"
proof -
  have "foldl appendAndProcess s chunks = feedChunks s chunks" if "[] \<notin> set chunks"
    for chunks
    using that
  proof (induction chunks rule: rev_induct)
    case Nil
    show ?case by (simp add: feedChunks_def)
  next
    case (snoc c chunks)
    then have "c \<noteq> []" and "foldl appendAndProcess s chunks = feedChunks s chunks" by auto
    then show ?case by (simp add: feedChunks_def monitorCallback_def)
  qed
  moreover have "[] \<notin> set (map (\<lambda>x. [x]) stream)" by auto
  ultimately show ?thesis by blast
qed

lemma appendAndProcess_empty: "appendAndProcess (s\<lparr>buffer := []\<rparr>) [] = s\<lparr>buffer := []\<rparr>"
proof -
  have "reassemble [] = ([], [])" by (subst reassemble.simps) (simp add: headerSequence_def)
  then show ?thesis by (simp add: appendAndProcess_def processBuffer_reassemble)
qed

text \<open>
  C1. Chunking invariance: delivering a byte stream one byte per notification leaves the
  service in the same state as delivering it in a single notification; in particular
  the same frames (kinds and payloads) are emitted in the same order and the same bytes
  stay in the buffer. This holds from every state of the service. The same is true of
  appending and processing without the callback around it, from the empty buffer of a
  new connection.
\<close>

theorem chunking_invariance:
  "feedChunks s (map (\<lambda>x. [x]) stream) = monitorCallback s None (Some stream)
   \<and> foldl appendAndProcess (s\<lparr>buffer := []\<rparr>) (map (\<lambda>x. [x]) stream)
       = appendAndProcess (s\<lparr>buffer := []\<rparr>) stream"
proof -
  have "concat (map (\<lambda>x. [x]) stream) = stream" by (induction stream) simp_all
  then have a: "feedChunks t (map (\<lambda>x. [x]) stream) = monitorCallback t None (Some stream)"
    for t
    by (simp add: feedChunks_concat)
  have "foldl appendAndProcess (s\<lparr>buffer := []\<rparr>) (map (\<lambda>x. [x]) stream)
       = appendAndProcess (s\<lparr>buffer := []\<rparr>) stream"
  proof (cases "stream = []")
    case True
    then show ?thesis by (simp add: appendAndProcess_empty)
  next
    case False
    then show ?thesis
      by (simp add: foldl_appendAndProcess_bytes a monitorCallback_def)
  qed
  with a show ?thesis by blast
qed

text \<open>
  C9. When \<open>processBuffer\<close> returns, the buffer holds no frame that could be cut off:
  if the header occurs in it at all, it occurs at offset 0 (\<open>indexOf\<close> finds it there)
  and the buffer is shorter than 300 bytes. One call reaches this state: a second call
  changes nothing.
\<close>

theorem processBuffer_fixpoint:
  "(sublist headerSequence (buffer (processBuffer s)) \<longrightarrow>
      prefix headerSequence (buffer (processBuffer s))
      \<and> indexOf (buffer (processBuffer s)) headerSequence = 0
      \<and> length (buffer (processBuffer s)) < 300)
   \<and> processBuffer (processBuffer s) = processBuffer s"
proof -
  have "buffer (processBuffer s) = snd (reassemble (buffer s))"
    by (simp add: processBuffer_reassemble)
  moreover have "processBuffer (processBuffer s) = processBuffer s"
    by (simp add: processBuffer_reassemble reassemble_idem)
  ultimately show ?thesis
    using reassemble_residual [of "buffer s"] by (simp add: indexOf_zero_iff)
qed

theorem processBuffer_fixpoint_witness:
  "sublist headerSequence (buffer (processBuffer residualExample))
   \<and> prefix headerSequence (buffer (processBuffer residualExample))
   \<and> indexOf (buffer (processBuffer residualExample)) headerSequence = 0
   \<and> length (buffer (processBuffer residualExample)) < 300
   \<and> processBuffer (processBuffer residualExample) = processBuffer residualExample"
proof -
  have "sublist headerSequence (buffer (processBuffer residualExample))"
    by code_simp
  with processBuffer_fixpoint [of residualExample] show ?thesis by blast
qed

text \<open>
  C2, as the scenario is written: the first frame of the chunk has only 299 bytes
  (4 header bytes, the kind, 294 zero bytes), so the 300 bytes cut off end with the
  first byte of the second header, and what is left has no header. The reassembler
  does not emit two frames and does not end with an empty buffer.
\<close>

theorem scenario_as_written_counterexample:
  "\<not> (map ftype (emitted (monitorCallback initialState None (Some (scenarioChunk 294))))
        = [0x02, 0x03]
      \<and> buffer (monitorCallback initialState None (Some (scenarioChunk 294))) = [])"
  by code_simp

text \<open>
  C2, amended. For the chunk as written the reassembler emits one frame, of kind
  \<open>0x02\<close>, and keeps the 299 bytes \<open>AA EB 90 03 00 ... 00\<close>. With 295 zero bytes after
  the kind \<open>0x02\<close>, so that the first frame has 300 bytes, it emits exactly two frames of
  300 bytes, kinds \<open>0x02\<close> then \<open>0x03\<close>, and the buffer ends empty.
\<close>

theorem scenario_reassembly:
  "map ftype (emitted (monitorCallback initialState None (Some (scenarioChunk 294)))) = [0x02]
   \<and> buffer (monitorCallback initialState None (Some (scenarioChunk 294)))
       = [0xAA, 0xEB, 0x90, 0x03] @ replicate 295 0x00
   \<and> map ftype (emitted (monitorCallback initialState None (Some (scenarioChunk 295))))
       = [0x02, 0x03]
   \<and> map (\<lambda>f. length (fdata f))
         (emitted (monitorCallback initialState None (Some (scenarioChunk 295)))) = [300, 300]
   \<and> buffer (monitorCallback initialState None (Some (scenarioChunk 295))) = []"
  by code_simp

section \<open>Properties of the command encoder\<close>

lemma padFrame_replicate: "padFrame frame = frame @ replicate (19 - length frame) 0"
proof (induction frame rule: padFrame.induct)
  case (1 frame)
  show ?case
  proof (cases "length frame < 19")
    case True
    then have "19 - length frame = Suc (19 - length (frame @ [0]))" by simp
    then have "replicate (19 - length frame) (0::int) = 0 # replicate (19 - length (frame @ [0])) 0"
      by (simp only: replicate_Suc)
    with True "1.IH" show ?thesis by (subst padFrame.simps) simp
  next
    case False
    then show ?thesis by (subst padFrame.simps) simp
  qed
qed

lemma foldl_plus_sum_list: "foldl (+) a xs = a + sum_list (xs :: int list)"
  by (induction xs arbitrary: a) simp_all

lemma word_of_int_sum_list: "(word_of_int (sum_list xs) :: byte) = sum_list (map word_of_int xs)"
  by (induction xs) simp_all

lemma word_of_int_mask_FF: "(word_of_int (x AND 0xFF) :: byte) = word_of_int x"
proof -
  have "x AND 0xFF = take_bit 8 x" by (simp add: take_bit_eq_mask mask_eq_exp_minus_1)
  then show ?thesis by (simp add: word_of_int_eq_iff)
qed

lemma unat_sum_list: "unat (sum_list (ws :: byte list)) = sum_list (map unat ws) mod 256"
proof (induction ws)
  case Nil
  show ?case by simp
next
  case (Cons w ws)
  have "unat (w + sum_list ws) = (unat w + unat (sum_list ws)) mod 256"
    by (simp add: unat_word_ariths)
  also have "\<dots> = (unat w + sum_list (map unat ws) mod 256) mod 256"
    by (simp only: Cons.IH)
  also have "\<dots> = (unat w + sum_list (map unat ws)) mod 256"
    by (rule mod_add_right_eq)
  finally show ?case by simp
qed

lemma commandBytes_eq:
  "commandBytes commandByte payload =
     (let body = [0xAA, 0x55, 0x90, 0xEB, word_of_int commandByte, of_nat (length payload)]
                   @ map word_of_int payload @ replicate (13 - length payload) 0
      in body @ [sum_list body])"
proof -
  let ?f = "[0xAA, 0x55, 0x90, 0xEB, commandByte, int (length payload)] @ payload
            @ replicate (13 - length payload) 0"
  have pad: "padFrame ([0xAA, 0x55, 0x90, 0xEB] @ [commandByte] @ [int (length payload)] @ payload) = ?f"
    by (simp add: padFrame_replicate)
  have "(word_of_int (foldl (+) 0 ?f AND 0xFF) :: byte) = sum_list (map word_of_int ?f)"
    by (simp only: word_of_int_mask_FF foldl_plus_sum_list word_of_int_sum_list add_0)
  then show ?thesis
    unfolding commandBytes_def commandFrame_def Buffer_from_def pad Let_def
    by simp
qed

lemma commandBytes_bytes:
  "commandBytes (uint opcode) (map uint payload) =
     [0xAA, 0x55, 0x90, 0xEB, opcode, of_nat (length payload)] @ payload
       @ replicate (13 - length payload) 0
       @ [sum_list ([0xAA, 0x55, 0x90, 0xEB, opcode, of_nat (length payload)] @ payload
                     @ replicate (13 - length payload) 0)]"
proof -
  have "map word_of_int (map uint payload) = payload"
    by (induction payload) simp_all
  then show ?thesis by (simp add: commandBytes_eq Let_def)
qed

subsection \<open>The base64 text\<close>

lemma base64Index_all:
  "list_all (\<lambda>n. base64Index base64Alphabet (base64Char n) = Some n \<and> base64Char n \<noteq> CHR ''='') [0..<64]"
  by code_simp

lemma base64Index_Char: "n < 64 \<Longrightarrow> base64Index base64Alphabet (base64Char n) = Some n"
  using base64Index_all by (simp add: list_all_iff)

lemma base64Char_not_pad: "n < 64 \<Longrightarrow> base64Char n \<noteq> CHR ''=''"
  using base64Index_all by (simp add: list_all_iff)

lemma sextets:
  fixes a b c :: nat
  assumes "a < 256" "b < 256" "c < 256"
  shows "a div 4 < 64" "a mod 4 * 16 < 64" "a mod 4 * 16 + b div 16 < 64"
    "b mod 16 * 4 < 64" "b mod 16 * 4 + c div 64 < 64" "c mod 64 < 64"
    "a div 4 * 4 + (a mod 4 * 16) div 16 = a"
    "a div 4 * 4 + (a mod 4 * 16 + b div 16) div 16 = a"
    "(a mod 4 * 16 + b div 16) mod 16 * 16 + (b mod 16 * 4) div 4 = b"
    "(a mod 4 * 16 + b div 16) mod 16 * 16 + (b mod 16 * 4 + c div 64) div 4 = b"
    "(b mod 16 * 4 + c div 64) mod 4 * 64 + c mod 64 = c"
  using assms by simp_all

lemma unat_byte_less: "unat (a :: byte) < 256"
  using unsigned_less [of a, where ?'a = nat] by simp

lemma fromBase64_toString_base64: "fromBase64 (toString_base64 bs) = Some bs"
proof (induction bs rule: toString_base64.induct)
  case 1
  show ?case by simp
next
  case (2 a)
  have "unat a < 256" by (rule unat_byte_less)
  from sextets [OF this this this] show ?case
    by (simp add: base64Index_Char base64Char_not_pad)
next
  case (3 a b)
  have "unat a < 256" "unat b < 256" by (rule unat_byte_less)+
  from sextets [OF this this(2)] show ?case
    by (simp add: base64Index_Char base64Char_not_pad)
next
  case (4 a b c rest)
  have "unat a < 256" "unat b < 256" "unat c < 256" by (rule unat_byte_less)+
  from sextets [OF this] 4 show ?case
    by (simp add: base64Index_Char base64Char_not_pad)
qed

lemma toString_base64_inject: "toString_base64 xs = toString_base64 ys \<longleftrightarrow> xs = ys"
proof
  assume "toString_base64 xs = toString_base64 ys"
  then have "fromBase64 (toString_base64 xs) = fromBase64 (toString_base64 ys)" by simp
  then show "xs = ys" by (simp add: fromBase64_toString_base64)
qed simp

lemma fromBase64_createCommand:
  "fromBase64 (createCommand commandByte payload) = Some (commandBytes commandByte payload)"
  by (simp add: createCommand_def fromBase64_toString_base64)

subsection \<open>The layout of a command\<close>

lemma of_nat_unat_sum_list: "(of_nat (sum_list (map unat ws) mod 256) :: byte) = sum_list ws"
proof -
  have "unat (of_nat (sum_list (map unat ws) mod 256) :: byte) = unat (sum_list ws)"
    by (simp add: unat_sum_list unat_of_nat)
  then show ?thesis by (simp only: word_unat_eq_iff)
qed

text \<open>
  C3. For every opcode byte and every payload of at most 13 bytes, the text that
  \<open>createCommand\<close> returns is the base64 text of exactly 20 bytes: \<open>AA 55 90 EB\<close>, the
  opcode, the payload length, the payload, zero bytes up to index 18, and at index 19
  the sum of the first 19 bytes modulo 256. This is the frame the specification's
  encoder describes.
\<close>

theorem createCommand_layout:
  "length payload \<le> 13 \<Longrightarrow>
   (let frame = commandBytes (uint opcode) (map uint payload)
    in createCommand (uint opcode) (map uint payload) = toString_base64 frame
       \<and> fromBase64 (createCommand (uint opcode) (map uint payload)) = Some frame
       \<and> length frame = 20
       \<and> take 4 frame = [0xAA, 0x55, 0x90, 0xEB]
       \<and> frame ! 4 = opcode
       \<and> unat (frame ! 5) = length payload
       \<and> take (length payload) (drop 6 frame) = payload
       \<and> take (13 - length payload) (drop (6 + length payload) frame)
           = replicate (13 - length payload) 0x00
       \<and> unat (frame ! 19) = sum_list (map unat (take 19 frame)) mod 256
       \<and> encode_spec opcode payload = Some frame)"
proof -
  assume len: "length payload \<le> 13"
  define pad :: "byte list" where "pad = replicate (13 - length payload) 0"
  define pre :: "byte list" where "pre = [0xAA, 0x55, 0x90, 0xEB, opcode, of_nat (length payload)]"
  define body where "body = pre @ payload @ pad"
  define frame where "frame = commandBytes (uint opcode) (map uint payload)"
  have frame: "frame = body @ [sum_list body]"
    using commandBytes_bytes [of opcode payload] by (simp add: frame_def body_def pre_def pad_def)
  have prelen: "length pre = 6" by (simp add: pre_def)
  from len have blen: "length body = 19" by (simp add: body_def pre_def pad_def)
  have c0: "createCommand (uint opcode) (map uint payload) = toString_base64 frame"
    by (simp add: createCommand_def frame_def)
  have c0': "fromBase64 (createCommand (uint opcode) (map uint payload)) = Some frame"
    by (simp add: fromBase64_createCommand frame_def)
  have c1: "length frame = 20" using blen by (simp add: frame)
  have c2: "take 4 frame = [0xAA, 0x55, 0x90, 0xEB]" by (simp add: frame body_def pre_def)
  have c3: "frame ! 4 = opcode" by (simp add: frame body_def pre_def)
  have "frame ! 5 = of_nat (length payload)" by (simp add: frame body_def pre_def)
  with len have c4: "unat (frame ! 5) = length payload" by (simp add: unat_of_nat)
  have d6: "drop 6 frame = payload @ pad @ [sum_list body]"
    using prelen by (simp add: frame body_def [of] pre_def)
  then have c5: "take (length payload) (drop 6 frame) = payload" by simp
  have "drop (6 + length payload) frame = drop (length payload) (drop 6 frame)"
    by (simp add: add.commute)
  also have "\<dots> = pad @ [sum_list body]" by (simp add: d6)
  finally have c6: "take (13 - length payload) (drop (6 + length payload) frame)
      = replicate (13 - length payload) 0x00"
    by (simp add: pad_def)
  have t19: "take 19 frame = body" using blen by (simp add: frame)
  have "frame ! 19 = sum_list body"
    using nth_append_length [of body "sum_list body" "[]"] by (simp add: frame blen)
  then have c7: "unat (frame ! 19) = sum_list (map unat (take 19 frame)) mod 256"
    by (simp only: t19 unat_sum_list)
  have "encode_spec opcode payload = Some (body @ [sum_list body])"
    using len by (simp add: encode_spec_def Let_def of_nat_unat_sum_list body_def pre_def pad_def)
  then have c8: "encode_spec opcode payload = Some frame" by (simp add: frame)
  from c0 c0' c1 c2 c3 c4 c5 c6 c7 c8 show ?thesis
    unfolding frame_def Let_def by blast
qed

text \<open>The command that switches the charge MOSFET on, opcode \<open>0x1D\<close> with payload \<open>01\<close>.\<close>

theorem createCommand_layout_witness:
  "length [0x01 :: byte] \<le> 13
   \<and> createCommand (uint (0x1D :: byte)) (map uint [0x01 :: byte])
       = ''qlWQ6x0BAQAAAAAAAAAAAAAAAJk=''
   \<and> fromBase64 (createCommand (uint (0x1D :: byte)) (map uint [0x01 :: byte]))
       = Some [0xAA, 0x55, 0x90, 0xEB, 0x1D, 0x01, 0x01, 0, 0, 0, 0, 0, 0, 0, 0, 0, 0, 0, 0, 0x99]
   \<and> length (commandBytes (uint (0x1D :: byte)) (map uint [0x01 :: byte])) = 20
   \<and> encode_spec 0x1D [0x01]
       = Some (commandBytes (uint (0x1D :: byte)) (map uint [0x01 :: byte]))"
proof -
  have h: "length [0x01 :: byte] \<le> 13" by simp
  have t: "createCommand (uint (0x1D :: byte)) (map uint [0x01 :: byte])
       = ''qlWQ6x0BAQAAAAAAAAAAAAAAAJk=''"
    by code_simp
  have v: "commandBytes (uint (0x1D :: byte)) (map uint [0x01 :: byte])
       = [0xAA, 0x55, 0x90, 0xEB, 0x1D, 0x01, 0x01, 0, 0, 0, 0, 0, 0, 0, 0, 0, 0, 0, 0, 0x99]"
    by code_simp
  note c = createCommand_layout [OF h, of "0x1D", unfolded Let_def]
  from c have "fromBase64 (createCommand (uint (0x1D :: byte)) (map uint [0x01 :: byte]))
       = Some (commandBytes (uint (0x1D :: byte)) (map uint [0x01 :: byte]))"
    by blast
  then have d: "fromBase64 (createCommand (uint (0x1D :: byte)) (map uint [0x01 :: byte]))
       = Some [0xAA, 0x55, 0x90, 0xEB, 0x1D, 0x01, 0x01, 0, 0, 0, 0, 0, 0, 0, 0, 0, 0, 0, 0, 0x99]"
    by (simp only: v)
  from c have l: "length (commandBytes (uint (0x1D :: byte)) (map uint [0x01 :: byte])) = 20"
    by blast
  from c have e: "encode_spec 0x1D [0x01]
       = Some (commandBytes (uint (0x1D :: byte)) (map uint [0x01 :: byte]))"
    by blast
  from h t d l e show ?thesis by blast
qed

text \<open>
  C4, as stated: the encoder the specification describes rejects a payload of 14
  bytes; \<open>createCommand\<close> returns a text for it, the base64 text of a frame of 21 bytes.
\<close>

theorem createCommand_no_guard_counterexample:
  "encode_spec 0x05 (replicate 14 0x31) = None
   \<and> createCommand (uint (0x05 :: byte)) (map uint (replicate 14 (0x31 :: byte)))
       = ''qlWQ6wUOMTExMTExMTExMTExMTE7''
   \<and> fromBase64 (createCommand (uint (0x05 :: byte)) (map uint (replicate 14 (0x31 :: byte))))
       = Some [0xAA, 0x55, 0x90, 0xEB, 0x05, 0x0E,
               0x31, 0x31, 0x31, 0x31, 0x31, 0x31, 0x31, 0x31, 0x31, 0x31, 0x31, 0x31, 0x31, 0x31,
               0x3B]"
  by code_simp

text \<open>
  C4, amended. \<open>createCommand\<close> has no bound check and never rejects. For a payload of
  \<open>n > 13\<close> bytes it returns the base64 text of \<open>7 + n\<close> bytes: header, opcode, length
  byte, the payload without padding, and the sum of all these bytes modulo 256. So it
  returns no 20-byte frame there, but it does return a frame.
\<close>

theorem createCommand_long_payload:
  "length payload > 13 \<Longrightarrow>
   (let frame = commandBytes (uint opcode) (map uint payload)
    in createCommand (uint opcode) (map uint payload) = toString_base64 frame
       \<and> fromBase64 (createCommand (uint opcode) (map uint payload)) = Some frame
       \<and> frame = [0xAA, 0x55, 0x90, 0xEB, opcode, of_nat (length payload)] @ payload
               @ [sum_list ([0xAA, 0x55, 0x90, 0xEB, opcode, of_nat (length payload)] @ payload)]
       \<and> length frame = 7 + length payload
       \<and> length frame \<noteq> 20)"
proof -
  assume len: "length payload > 13"
  define frame where "frame = commandBytes (uint opcode) (map uint payload)"
  have c0: "createCommand (uint opcode) (map uint payload) = toString_base64 frame"
    by (simp add: createCommand_def frame_def)
  have c1: "fromBase64 (createCommand (uint opcode) (map uint payload)) = Some frame"
    by (simp add: fromBase64_createCommand frame_def)
  have c2: "frame = [0xAA, 0x55, 0x90, 0xEB, opcode, of_nat (length payload)] @ payload
               @ [sum_list ([0xAA, 0x55, 0x90, 0xEB, opcode, of_nat (length payload)] @ payload)]"
    using len commandBytes_bytes [of opcode payload] by (simp add: frame_def)
  have c3: "length frame = 7 + length payload" by (subst c2) simp
  with len have c4: "length frame \<noteq> 20" by simp
  from c0 c1 c2 c3 c4 show ?thesis unfolding frame_def Let_def by blast
qed

text \<open>An authorization command with a passcode of 14 characters \<open>1\<close>.\<close>

theorem createCommand_long_payload_witness:
  "length (replicate 14 (0x31 :: byte)) > 13
   \<and> fromBase64 (createCommand (uint (0x05 :: byte)) (map uint (replicate 14 (0x31 :: byte))))
       = Some (commandBytes (uint (0x05 :: byte)) (map uint (replicate 14 (0x31 :: byte))))
   \<and> length (commandBytes (uint (0x05 :: byte)) (map uint (replicate 14 (0x31 :: byte))))
       = 7 + length (replicate 14 (0x31 :: byte))
   \<and> length (commandBytes (uint (0x05 :: byte)) (map uint (replicate 14 (0x31 :: byte)))) \<noteq> 20"
proof -
  have h: "length (replicate 14 (0x31 :: byte)) > 13" by simp
  from h createCommand_long_payload [OF h, of "0x05", unfolded Let_def] show ?thesis by blast
qed

section \<open>Properties of the decoders\<close>

lemma bufferToAscii_takeWhile:
  "bufferToAscii buf = map (\<lambda>b. char_of (unat b)) (takeWhile (\<lambda>b. b \<noteq> 0) buf)"
  by (induction buf) simp_all

lemma includes_str_sublist: "includes_str str search \<longleftrightarrow> sublist search str"
  by (induction str) (simp_all add: sublist_Cons_right)

lemma handleData_offset:
  assumes "mounted ui" "ftype ev = 0x03" "length (fdata ev) \<ge> 134"
  shows "protocolOffset (snd (handleData (ui, ble) ev)) =
     (if prefix ''JK_BD'' (bufferToAscii (slice_buf (fdata ev) 6 22))
         \<or> prefix ''11.'' (bufferToAscii (slice_buf (fdata ev) 30 38)) then 32
      else if prefix ''JK_B2A'' (bufferToAscii (slice_buf (fdata ev) 6 22))
         \<or> sublist ''32S'' (bufferToAscii (slice_buf (fdata ev) 6 22)) then 16
      else 0)"
  using assms
  by (simp add: handleData_def Let_def startsWith_def includes_str_sublist
      setProtocolOffset_def setSetupPasscode_def)

text \<open>
  C5, as stated: with the vendor \<open>JK_B2A32S\<close> and a firmware version that starts with
  \<open>11.\<close> the offset chosen is not 16 (it is 32), and the vendor \<open>JK_B2A24S\<close>, which is
  neither of the two vendors named, does not select 0 (it selects 16).
\<close>

theorem variant_examples_counterexample:
  "bufferToAscii (slice_buf (fdata (deviceInfoFrame ''JK_B2A32S'' ''11.XW'' ''1234'')) 6 22)
     = ''JK_B2A32S''
   \<and> protocolOffset (snd (handleData (initialScreen, initialState)
        (deviceInfoFrame ''JK_B2A32S'' ''11.XW'' ''1234''))) \<noteq> 16
   \<and> bufferToAscii (slice_buf (fdata (deviceInfoFrame ''JK_B2A24S'' ''10.XG'' ''1234'')) 6 22)
     = ''JK_B2A24S''
   \<and> protocolOffset (snd (handleData (initialScreen, initialState)
        (deviceInfoFrame ''JK_B2A24S'' ''10.XG'' ''1234''))) \<noteq> 0"
  by code_simp

text \<open>
  C5, amended. For a device-info frame (kind \<open>0x03\<close>, at least 134 bytes) handled while
  the screen is mounted, with the vendor read as the characters before the first zero
  byte of bytes 6 to 21 and the firmware likewise of bytes 30 to 37, the offset stored is
  32 if the vendor starts with \<open>JK_BD\<close> or the firmware starts with \<open>11.\<close>, else 16 if
  the vendor starts with \<open>JK_B2A\<close> or contains \<open>32S\<close>, else 0. In particular the
  vendor \<open>JK_BD6.0\<close> selects 32; the vendor \<open>JK_B2A32S\<close> selects 16 unless the firmware
  starts with \<open>11.\<close>; and a vendor that neither starts with \<open>JK_BD\<close> or \<open>JK_B2A\<close> nor
  contains \<open>32S\<close> selects 0 unless the firmware starts with \<open>11.\<close>.
\<close>

theorem variant_selection:
  "mounted ui \<Longrightarrow> ftype ev = 0x03 \<Longrightarrow> length (fdata ev) \<ge> 134 \<Longrightarrow>
   (let vendor = map (\<lambda>b. char_of (unat b))
                   (takeWhile (\<lambda>b. b \<noteq> 0) (take 16 (drop 6 (fdata ev))));
        firmware = map (\<lambda>b. char_of (unat b))
                     (takeWhile (\<lambda>b. b \<noteq> 0) (take 8 (drop 30 (fdata ev))));
        chosen = protocolOffset (snd (handleData (ui, ble) ev))
    in chosen = (if prefix ''JK_BD'' vendor \<or> prefix ''11.'' firmware then 32
                 else if prefix ''JK_B2A'' vendor \<or> sublist ''32S'' vendor then 16
                 else 0)
       \<and> (vendor = ''JK_BD6.0'' \<longrightarrow> chosen = 32)
       \<and> (vendor = ''JK_B2A32S'' \<and> \<not> prefix ''11.'' firmware \<longrightarrow> chosen = 16)
       \<and> (\<not> prefix ''JK_BD'' vendor \<and> \<not> prefix ''JK_B2A'' vendor \<and> \<not> sublist ''32S'' vendor
            \<and> \<not> prefix ''11.'' firmware \<longrightarrow> chosen = 0))"
proof -
  assume a: "mounted ui" "ftype ev = 0x03" "length (fdata ev) \<ge> 134"
  have v: "bufferToAscii (slice_buf (fdata ev) 6 22) =
      map (\<lambda>b. char_of (unat b)) (takeWhile (\<lambda>b. b \<noteq> 0) (take 16 (drop 6 (fdata ev))))"
    by (simp add: bufferToAscii_takeWhile slice_buf_def)
  have f: "bufferToAscii (slice_buf (fdata ev) 30 38) =
      map (\<lambda>b. char_of (unat b)) (takeWhile (\<lambda>b. b \<noteq> 0) (take 8 (drop 30 (fdata ev))))"
    by (simp add: bufferToAscii_takeWhile slice_buf_def)
  have s: "sublist ''32S'' ''JK_B2A32S''" by code_simp
  show ?thesis
    unfolding Let_def handleData_offset [OF a, of ble] v f
    using s by auto
qed

text \<open>A device-info frame with vendor \<open>JK_B2A32S\<close> and firmware \<open>10.XG\<close>.\<close>

theorem variant_selection_witness:
  "mounted initialScreen
   \<and> ftype (deviceInfoFrame ''JK_B2A32S'' ''10.XG'' ''1234'') = 0x03
   \<and> length (fdata (deviceInfoFrame ''JK_B2A32S'' ''10.XG'' ''1234'')) \<ge> 134
   \<and> map (\<lambda>b. char_of (unat b)) (takeWhile (\<lambda>b. b \<noteq> 0)
         (take 16 (drop 6 (fdata (deviceInfoFrame ''JK_B2A32S'' ''10.XG'' ''1234'')))))
       = ''JK_B2A32S''
   \<and> map (\<lambda>b. char_of (unat b)) (takeWhile (\<lambda>b. b \<noteq> 0)
         (take 8 (drop 30 (fdata (deviceInfoFrame ''JK_B2A32S'' ''10.XG'' ''1234'')))))
       = ''10.XG''
   \<and> protocolOffset (snd (handleData (initialScreen, initialState)
         (deviceInfoFrame ''JK_B2A32S'' ''10.XG'' ''1234''))) = 16"
proof -
  let ?ev = "deviceInfoFrame ''JK_B2A32S'' ''10.XG'' ''1234''"
  have h1: "mounted initialScreen" by (simp add: initialScreen_def)
  have h2: "ftype ?ev = 0x03" by (simp add: deviceInfoFrame_def)
  have h3: "length (fdata ?ev) \<ge> 134" by code_simp
  have v: "map (\<lambda>b. char_of (unat b)) (takeWhile (\<lambda>b. b \<noteq> 0)
         (take 16 (drop 6 (fdata ?ev)))) = ''JK_B2A32S''" by code_simp
  have f: "map (\<lambda>b. char_of (unat b)) (takeWhile (\<lambda>b. b \<noteq> 0)
         (take 8 (drop 30 (fdata ?ev)))) = ''10.XG''" by code_simp
  have nf: "\<not> prefix ''11.'' ''10.XG''" by code_simp
  from variant_selection [OF h1 h2 h3, of initialState]
  have "protocolOffset (snd (handleData (initialScreen, initialState) ?ev)) = 16"
    unfolding Let_def v f using nf by blast
  with h1 h2 h3 v f show ?thesis by blast
qed

subsection \<open>Reading 32-bit integers\<close>

lemma le_word32:
  fixes b0 b1 b2 b3 :: byte
  shows "(ucast b0 OR push_bit 8 (ucast b1) OR push_bit 16 (ucast b2) OR push_bit 24 (ucast b3) :: 32 word)
     = ucast b0 + (push_bit 8 (ucast b1) + (push_bit 16 (ucast b2) + push_bit 24 (ucast b3)))"
proof -
  have a: "push_bit 16 (ucast b2 :: 32 word) + push_bit 24 (ucast b3)
      = push_bit 16 (ucast b2) OR push_bit 24 (ucast b3)"
    by (rule disjunctive_add) (auto simp: bit_simps dest: bit_imp_le_length)
  have b: "push_bit 8 (ucast b1 :: 32 word) + (push_bit 16 (ucast b2) OR push_bit 24 (ucast b3))
      = push_bit 8 (ucast b1) OR (push_bit 16 (ucast b2) OR push_bit 24 (ucast b3))"
    by (rule disjunctive_add) (auto simp: bit_simps dest: bit_imp_le_length)
  have c: "(ucast b0 :: 32 word) + (push_bit 8 (ucast b1) OR (push_bit 16 (ucast b2) OR push_bit 24 (ucast b3)))
      = ucast b0 OR (push_bit 8 (ucast b1) OR (push_bit 16 (ucast b2) OR push_bit 24 (ucast b3)))"
    by (rule disjunctive_add) (auto simp: bit_simps dest: bit_imp_le_length)
  show ?thesis by (simp only: a b c or.assoc)
qed

lemma uint_le_word32:
  fixes b0 b1 b2 b3 :: byte
  shows "uint (ucast b0 + (push_bit 8 (ucast b1) + (push_bit 16 (ucast b2) + push_bit 24 (ucast b3))) :: 32 word)
     = uint b0 + 256 * uint b1 + 65536 * uint b2 + 16777216 * uint b3"
proof -
  have r: "0 \<le> uint b0" "uint b0 < 256" "0 \<le> uint b1" "uint b1 < 256"
     "0 \<le> uint b2" "uint b2 < 256" "0 \<le> uint b3" "uint b3 < 256"
    using uint_lt2p [of b0] uint_lt2p [of b1] uint_lt2p [of b2] uint_lt2p [of b3] by simp_all
  have u0: "uint (ucast b0 :: 32 word) = uint b0" by (simp add: uint_up_ucast is_up)
  have u1: "uint (push_bit 8 (ucast b1 :: 32 word)) = 256 * uint b1"
    using r by (simp add: push_bit_eq_mult uint_word_ariths uint_up_ucast is_up)
  have u2: "uint (push_bit 16 (ucast b2 :: 32 word)) = 65536 * uint b2"
    using r by (simp add: push_bit_eq_mult uint_word_ariths uint_up_ucast is_up)
  have u3: "uint (push_bit 24 (ucast b3 :: 32 word)) = 16777216 * uint b3"
    using r by (simp add: push_bit_eq_mult uint_word_ariths uint_up_ucast is_up)
  have "uint (ucast b0 + (push_bit 8 (ucast b1) + (push_bit 16 (ucast b2) + push_bit 24 (ucast b3))) :: 32 word)
      = (uint b0 + 256 * uint b1 + 65536 * uint b2 + 16777216 * uint b3) mod 2 ^ 32"
    by (simp only: uint_word_ariths u0 u1 u2 u3 mod_add_eq mod_add_left_eq mod_add_right_eq add.assoc) simp
  also have "\<dots> = uint b0 + 256 * uint b1 + 65536 * uint b2 + 16777216 * uint b3"
    using r by simp
  finally show ?thesis .
qed

lemma signed_take_bit_31:
  "0 \<le> x \<Longrightarrow> x < 4294967296 \<Longrightarrow>
   signed_take_bit 31 (x :: int) = (if x < 2147483648 then x else x - 4294967296)"
proof (cases "x < 2147483648")
  case True
  assume "0 \<le> x"
  with True show ?thesis
    by (simp add: signed_take_bit_eq_take_bit_shift take_bit_eq_mod)
next
  case False
  assume b: "x < 4294967296"
  have "x + 2147483648 = x - 2147483648 + 4294967296" by simp
  then have "(x + 2147483648) mod 4294967296 = (x - 2147483648 + 4294967296) mod 4294967296"
    by (simp only:)
  also have "\<dots> = (x - 2147483648) mod 4294967296"
    by (simp only: mod_add_self2)
  also have "\<dots> = x - 2147483648"
    using False b by simp
  finally show ?thesis using False
    by (simp add: signed_take_bit_eq_take_bit_shift take_bit_eq_mod)
qed

lemma readUInt32LE_value:
  fixes b0 b1 b2 b3 :: byte
  shows "readUInt32LE [b0, b1, b2, b3] 0 =
     (if b3 < 0x80 then uint b0 + 256 * uint b1 + 65536 * uint b2 + 16777216 * uint b3
      else uint b0 + 256 * uint b1 + 65536 * uint b2 + 16777216 * uint b3 - 4294967296)"
proof -
  let ?w = "ucast b0 + (push_bit 8 (ucast b1) + (push_bit 16 (ucast b2) + push_bit 24 (ucast b3))) :: 32 word"
  let ?u = "uint b0 + 256 * uint b1 + 65536 * uint b2 + 16777216 * uint b3"
  have r: "0 \<le> uint b0" "uint b0 < 256" "0 \<le> uint b1" "uint b1 < 256"
     "0 \<le> uint b2" "uint b2 < 256" "0 \<le> uint b3" "uint b3 < 256"
    using uint_lt2p [of b0] uint_lt2p [of b1] uint_lt2p [of b2] uint_lt2p [of b3] by simp_all
  have rd: "readUInt32LE [b0, b1, b2, b3] 0 = sint ?w"
    by (simp add: readUInt32LE_def byteAt_def toInt32_def le_word32 [symmetric] or.assoc)
  have u: "uint ?w = ?u" by (rule uint_le_word32)
  have "0 \<le> ?u" "?u < 4294967296" using r by simp_all
  then have "signed_take_bit 31 ?u = (if ?u < 2147483648 then ?u else ?u - 4294967296)"
    by (rule signed_take_bit_31)
  then have s: "sint ?w = (if ?u < 2147483648 then ?u else ?u - 4294967296)"
    by (simp only: sint_uint u) simp
  have w: "b3 < 0x80 \<longleftrightarrow> uint b3 < 128" by (simp add: word_less_def)
  have "uint b3 < 128 \<Longrightarrow> ?u < 2147483648" using r by linarith
  moreover have "\<not> uint b3 < 128 \<Longrightarrow> \<not> ?u < 2147483648" using r by linarith
  ultimately have "b3 < 0x80 \<longleftrightarrow> ?u < 2147483648" unfolding w by blast
  with rd s show ?thesis by simp
qed

text \<open>
  C6 does not hold of \<open>readUInt32LE\<close>: by \<open>readUInt32LE_value\<close> the number returned is
  the little-endian value only while the last byte is below \<open>0x80\<close>, and is that value
  minus \<open>2^32\<close> otherwise. For the bytes \<open>00 00 00 80\<close> it is \<open>-2147483648\<close>, not
  \<open>2147483648\<close>, and this is the number a status frame with these bytes at offset 118
  stores as total voltage.
\<close>

theorem readUInt32LE_signed_example:
  "readUInt32LE [0x00, 0x00, 0x00, 0x80] 0 = - 2147483648
   \<and> uint (0x00 :: byte) + 256 * uint (0x00 :: byte) + 65536 * uint (0x00 :: byte)
       + 16777216 * uint (0x80 :: byte) = 2147483648
   \<and> totalVoltage_raw (fst (handleData (initialScreen, initialState)
        (statusFrame [0x00, 0x00, 0x00, 0x80]))) = Some (- 2147483648)"
  by code_simp

section \<open>Properties of the control session\<close>

subsection \<open>What the commands write\<close>

lemma fst_sendCommand:
  "fst (sendCommand wr s d c p) = (case wr (length (tx s)) of None \<Rightarrow> Inr () | Some e \<Rightarrow> Inl e)"
  by (simp add: sendCommand_def Let_def split: option.splits)

lemma tx_sendCommand:
  "tx (snd (sendCommand wr s d c p)) = tx s @ [(d, createCommand c p)]"
  by (simp add: sendCommand_def Let_def split: option.splits)

lemma tx_sendControlCommand:
  "tx (snd (sendControlCommand wr s d reg v)) = tx s @ controlCommandWrites wr s d reg v"
  by (simp add: sendControlCommand_def sendAuthorization_def sendCommand_def Let_def
      controlCommandWrites_def split: option.splits)

lemma fst_sendControlCommand:
  "fst (sendControlCommand wr s d reg v) =
     (if \<not> isAuthorized s \<and> setupPasscode s \<noteq> []
      then (case wr (length (tx s)) of Some e \<Rightarrow> Inl e
            | None \<Rightarrow> (case wr (Suc (length (tx s))) of Some e \<Rightarrow> Inl e
                  | None \<Rightarrow> (case wr (Suc (Suc (length (tx s)))) of Some e \<Rightarrow> Inl e
                          | None \<Rightarrow> Inr ())))
      else (case wr (length (tx s)) of Some e \<Rightarrow> Inl e
            | None \<Rightarrow> (case wr (Suc (length (tx s))) of Some e \<Rightarrow> Inl e
                  | None \<Rightarrow> Inr ())))"
  by (simp add: sendControlCommand_def sendAuthorization_def sendCommand_def Let_def
      split: option.splits)

subsection \<open>The retry loop\<close>

lemma sendRobustLoop_done:
  "sendRobustLoop wr cur d reg v t 3 (s, evs) = (Inr False, s, evs)"
  by (subst sendRobustLoop.simps) simp

lemma sendRobustLoop_step:
  "i < 3 \<Longrightarrow> sendRobustLoop wr cur d reg v t i (s, evs) =
     (case sendControlCommand wr s d reg v of
        (Inl e, s1) \<Rightarrow> sendRobustLoop wr cur d reg v t (Suc i) (s1, evs @ [ConsoleRetryError e])
      | (Inr u, s1) \<Rightarrow>
          if cur i = Some t
          then (Inr True, safeSendCommand wr s1 d 0x96, evs @ [StatusVerifying (Suc i)])
          else sendRobustLoop wr cur d reg v t (Suc i)
                 (safeSendCommand wr s1 d 0x96, evs @ [StatusVerifying (Suc i)]))"
  by (subst sendRobustLoop.simps) (simp add: Let_def split: prod.splits sum.splits)

lemma ex_less_3: "(\<exists>i<3. P i) \<longleftrightarrow> P 0 \<or> P (Suc 0) \<or> P (Suc (Suc 0))"
  by (auto simp: numeral_3_eq_3 less_Suc_eq)

lemma all_less_3: "(\<forall>i<3. P i) \<longleftrightarrow> P 0 \<and> P (Suc 0) \<and> P (Suc (Suc 0))"
  by (auto simp: numeral_3_eq_3 less_Suc_eq)

lemma tx_stateBeforeAttempt_Suc:
  "tx (stateBeforeAttempt wr d reg v s (Suc k)) =
     tx (stateBeforeAttempt wr d reg v s k)
     @ controlCommandWrites wr (stateBeforeAttempt wr d reg v s k) d reg v
     @ (if attemptSent wr d reg v s k then [(d, createCommand 0x96 [])] else [])"
proof -
  let ?t = "stateBeforeAttempt wr d reg v s k"
  obtain r t1 where sc: "sendControlCommand wr ?t d reg v = (r, t1)"
    by (cases "sendControlCommand wr ?t d reg v")
  from tx_sendControlCommand [of wr ?t d reg v] sc
  have tx1: "tx t1 = tx ?t @ controlCommandWrites wr ?t d reg v" by simp
  show ?thesis
    by (cases r) (simp_all add: sc attemptSent_def tx1 safeSendCommand_def tx_sendCommand)
qed

lemma attemptSent_iff:
  "attemptSent wr d reg v s k \<longleftrightarrow>
     (\<forall>j < (if \<not> isAuthorized (stateBeforeAttempt wr d reg v s k)
                   \<and> setupPasscode (stateBeforeAttempt wr d reg v s k) \<noteq> [] then 3 else 2).
        wr (length (tx (stateBeforeAttempt wr d reg v s k)) + j) = None)"
  by (auto simp: attemptSent_def fst_sendControlCommand all_less_3 numeral_2_eq_2
      less_Suc_eq split: option.splits)

text \<open>
  C7. \<open>sendRobustCommand\<close> never throws: its result is \<open>Inr\<close> of a boolean, whatever the
  sends do. It makes \<open>n\<close> attempts, with \<open>1 \<le> n \<le> 3\<close>: it stops at the first attempt that
  is verified, that is, whose \<open>sendControlCommand\<close> returned and whose comparison then
  read the target value; no attempt before the last one made is verified, and no
  attempt is made after a verified one. It returns \<open>true\<close> exactly when the last attempt
  made is verified, and \<open>false\<close> exactly when three attempts were made and none was
  verified; so it returns \<open>false\<close> whenever the observed status never is the target
  value. The service it leaves is the one after exactly these \<open>n\<close> attempts, the events
  it shows are theirs, one per attempt, in order, and each attempt writes the frames of
  \<open>sendControlCommand\<close> followed, when that returned, by one refresh \<open>0x96\<close>. By
  \<open>attemptSent_iff\<close> the \<open>sendControlCommand\<close> of an attempt returns exactly when all its
  writes resolve.
\<close>

theorem sendRobustCommand_bounded_retry:
  "(let r = sendRobustCommand wr cur d reg v (s, evs);
        n = attemptsMade wr cur d reg v s
    in r = (Inr (attemptVerified wr cur d reg v s (n - 1)),
            stateBeforeAttempt wr d reg v s n,
            evs @ map (attemptEvent wr d reg v s) [0..<n])
       \<and> 1 \<le> n \<and> n \<le> 3
       \<and> (\<forall>k. Suc k < n \<longrightarrow> \<not> attemptVerified wr cur d reg v s k)
       \<and> (\<forall>k. Suc k < n \<longrightarrow> \<not> (attemptSent wr d reg v s k \<and> cur k = Some (v = 1)))
       \<and> (fst r = Inr True \<longleftrightarrow> attemptVerified wr cur d reg v s (n - 1))
       \<and> (fst r = Inr True \<longleftrightarrow>
            attemptSent wr d reg v s (n - 1) \<and> cur (n - 1) = Some (v = 1))
       \<and> length (snd (snd r)) = length evs + n
       \<and> (fst r = Inr False \<longleftrightarrow>
            n = 3 \<and> (\<forall>k<3. \<not> attemptVerified wr cur d reg v s k))
       \<and> ((\<forall>k<3. cur k \<noteq> Some (v = 1)) \<longrightarrow> fst r = Inr False)
       \<and> (\<forall>k<n. tx (stateBeforeAttempt wr d reg v s (Suc k)) =
              tx (stateBeforeAttempt wr d reg v s k)
              @ controlCommandWrites wr (stateBeforeAttempt wr d reg v s k) d reg v
              @ (if attemptSent wr d reg v s k then [(d, createCommand 0x96 [])] else [])))"
proof -
  let ?V = "attemptVerified wr cur d reg v s"
  let ?S = "stateBeforeAttempt wr d reg v s"
  let ?E = "attemptEvent wr d reg v s"
  let ?L = "sendRobustLoop wr cur d reg v (v = 1)"
  have step: "?L k (?S k, es) =
      (if ?V k then (Inr True, ?S (Suc k), es @ [?E k])
       else ?L (Suc k) (?S (Suc k), es @ [?E k]))" if "k < 3" for k es
  proof -
    obtain r t1 where sc: "sendControlCommand wr (?S k) d reg v = (r, t1)"
      by (cases "sendControlCommand wr (?S k) d reg v")
    show ?thesis
      using that
      by (cases r)
         (simp_all add: sendRobustLoop_step sc attemptVerified_def attemptSent_def
            attemptEvent_def)
  qed
  have l2: "?L (Suc (Suc 0)) (?S (Suc (Suc 0)), es) =
      (Inr (?V (Suc (Suc 0))), ?S (Suc (Suc (Suc 0))), es @ [?E (Suc (Suc 0))])" for es
  proof -
    have "Suc (Suc 0) < (3::nat)" by simp
    from step [OF this, of es] show ?thesis
      by (simp del: stateBeforeAttempt.simps
          add: sendRobustLoop_done [unfolded numeral_3_eq_3])
  qed
  have l1: "?L (Suc 0) (?S (Suc 0), es) =
      (if ?V (Suc 0) then (Inr True, ?S (Suc (Suc 0)), es @ [?E (Suc 0)])
       else (Inr (?V (Suc (Suc 0))), ?S (Suc (Suc (Suc 0))),
             es @ [?E (Suc 0), ?E (Suc (Suc 0))]))" for es
  proof -
    have "Suc 0 < (3::nat)" by simp
    from step [OF this, of es] show ?thesis
      by (simp del: stateBeforeAttempt.simps add: l2)
  qed
  have l0: "?L 0 (s, evs) =
      (if ?V 0 then (Inr True, ?S (Suc 0), evs @ [?E 0])
       else if ?V (Suc 0) then (Inr True, ?S (Suc (Suc 0)), evs @ [?E 0, ?E (Suc 0)])
       else (Inr (?V (Suc (Suc 0))), ?S (Suc (Suc (Suc 0))),
             evs @ [?E 0, ?E (Suc 0), ?E (Suc (Suc 0))]))"
  proof -
    have "0 < (3::nat)" by simp
    from step [OF this, of evs] have "?L 0 (s, evs) =
        (if ?V 0 then (Inr True, ?S (Suc 0), evs @ [?E 0])
         else ?L (Suc 0) (?S (Suc 0), evs @ [?E 0]))"
      by (simp del: stateBeforeAttempt.simps add: stateBeforeAttempt.simps(1))
    then show ?thesis by (simp del: stateBeforeAttempt.simps add: l1)
  qed
  have r: "sendRobustCommand wr cur d reg v (s, evs) =
      (Inr (?V (attemptsMade wr cur d reg v s - 1)),
       ?S (attemptsMade wr cur d reg v s),
       evs @ map ?E [0..<attemptsMade wr cur d reg v s])"
    by (simp del: stateBeforeAttempt.simps
        add: sendRobustCommand_def l0 attemptsMade_def numeral_2_eq_2 numeral_3_eq_3)
  have b: "1 \<le> attemptsMade wr cur d reg v s" "attemptsMade wr cur d reg v s \<le> 3"
    by (simp_all add: attemptsMade_def)
  have e: "\<forall>k. Suc k < attemptsMade wr cur d reg v s \<longrightarrow> \<not> ?V k"
    by (auto simp: attemptsMade_def less_Suc_eq numeral_2_eq_2 numeral_3_eq_3 split: if_splits)
  have f: "\<not> ?V (attemptsMade wr cur d reg v s - 1) \<longleftrightarrow>
      attemptsMade wr cur d reg v s = 3 \<and> (\<forall>k<3. \<not> ?V k)"
    by (auto simp: attemptsMade_def all_less_3 numeral_2_eq_2)
  have g: "(\<forall>k<3. cur k \<noteq> Some (v = 1)) \<longrightarrow> \<not> ?V (attemptsMade wr cur d reg v s - 1)"
    unfolding f by (simp add: attemptsMade_def attemptVerified_def all_less_3 numeral_2_eq_2)
  have h: "?V k \<longleftrightarrow> attemptSent wr d reg v s k \<and> cur k = Some (v = 1)" for k
    by (simp add: attemptVerified_def)
  note e' = e [unfolded h]
  have i: "?V (attemptsMade wr cur d reg v s - 1) \<longleftrightarrow>
      attemptSent wr d reg v s (attemptsMade wr cur d reg v s - 1)
      \<and> cur (attemptsMade wr cur d reg v s - 1) = Some (v = 1)"
    by (rule h)
  show ?thesis
    unfolding Let_def r
    using b e e' f g i tx_stateBeforeAttempt_Suc [of wr d reg v s]
    by simp
qed

text \<open>
  Three runs for the charge MOSFET (register \<open>0x1D\<close>, value 1) from a new service. In
  the first all writes resolve and the status is on target at once: one attempt, three
  writes, \<open>true\<close>. In the second the status is on target at once but the first write
  rejects, so the first attempt reads nothing: two attempts, \<open>true\<close>. In the third the
  fifth write rejects and the status stays off target: three attempts, \<open>false\<close>.
\<close>

theorem sendRobustCommand_bounded_retry_witness:
  "attemptsMade (writeFailsAt 9) (statusTrueFrom 0) ''dev'' 0x1D 1 initialState = 1
   \<and> fst (sendRobustCommand (writeFailsAt 9) (statusTrueFrom 0) ''dev'' 0x1D 1 (initialState, []))
       = Inr True
   \<and> snd (snd (sendRobustCommand (writeFailsAt 9) (statusTrueFrom 0) ''dev'' 0x1D 1
         (initialState, []))) = [StatusVerifying 1]
   \<and> tx (fst (snd (sendRobustCommand (writeFailsAt 9) (statusTrueFrom 0) ''dev'' 0x1D 1
         (initialState, []))))
       = [(''dev'', createCommand 0x1D [1]), (''dev'', createCommand 0x96 []),
          (''dev'', createCommand 0x96 [])]
   \<and> attemptsMade (writeFailsAt 0) (statusTrueFrom 0) ''dev'' 0x1D 1 initialState = 2
   \<and> fst (sendRobustCommand (writeFailsAt 0) (statusTrueFrom 0) ''dev'' 0x1D 1 (initialState, []))
       = Inr True
   \<and> snd (snd (sendRobustCommand (writeFailsAt 0) (statusTrueFrom 0) ''dev'' 0x1D 1
         (initialState, [])))
       = [ConsoleRetryError (JsError (Some ''write failed'')), StatusVerifying 2]
   \<and> attemptsMade (writeFailsAt 4) (statusTrueFrom 5) ''dev'' 0x1D 1 initialState = 3
   \<and> fst (sendRobustCommand (writeFailsAt 4) (statusTrueFrom 5) ''dev'' 0x1D 1 (initialState, []))
       = Inr False
   \<and> snd (snd (sendRobustCommand (writeFailsAt 4) (statusTrueFrom 5) ''dev'' 0x1D 1
         (initialState, [])))
       = [StatusVerifying 1, ConsoleRetryError (JsError (Some ''write failed'')),
          StatusVerifying 3]"
proof -
  let ?rA = "sendRobustCommand (writeFailsAt 9) (statusTrueFrom 0) ''dev'' 0x1D 1 (initialState, [])"
  let ?nA = "attemptsMade (writeFailsAt 9) (statusTrueFrom 0) ''dev'' 0x1D 1 initialState"
  let ?rB = "sendRobustCommand (writeFailsAt 0) (statusTrueFrom 0) ''dev'' 0x1D 1 (initialState, [])"
  let ?nB = "attemptsMade (writeFailsAt 0) (statusTrueFrom 0) ''dev'' 0x1D 1 initialState"
  let ?rC = "sendRobustCommand (writeFailsAt 4) (statusTrueFrom 5) ''dev'' 0x1D 1 (initialState, [])"
  let ?nC = "attemptsMade (writeFailsAt 4) (statusTrueFrom 5) ''dev'' 0x1D 1 initialState"
  have nA: "?nA = 1" by code_simp
  have vA: "attemptVerified (writeFailsAt 9) (statusTrueFrom 0) ''dev'' 0x1D 1 initialState (?nA - 1)"
    by code_simp
  have eA: "[] @ map (attemptEvent (writeFailsAt 9) ''dev'' 0x1D 1 initialState) [0..<?nA]
      = [StatusVerifying 1]"
    by code_simp
  have tA: "tx (stateBeforeAttempt (writeFailsAt 9) ''dev'' 0x1D 1 initialState ?nA)
      = [(''dev'', createCommand 0x1D [1]), (''dev'', createCommand 0x96 []),
         (''dev'', createCommand 0x96 [])]"
    by code_simp
  from sendRobustCommand_bounded_retry
    [of "writeFailsAt 9" "statusTrueFrom 0" "''dev''" "0x1D" 1 initialState "[]", unfolded Let_def]
  have "?rA = (Inr (attemptVerified (writeFailsAt 9) (statusTrueFrom 0) ''dev'' 0x1D 1
                     initialState (?nA - 1)),
               stateBeforeAttempt (writeFailsAt 9) ''dev'' 0x1D 1 initialState ?nA,
               [] @ map (attemptEvent (writeFailsAt 9) ''dev'' 0x1D 1 initialState) [0..<?nA])"
    by blast
  then have rA: "?rA = (Inr True,
               stateBeforeAttempt (writeFailsAt 9) ''dev'' 0x1D 1 initialState ?nA,
               [StatusVerifying 1])"
    using vA by (simp only: eA)
  have A: "fst ?rA = Inr True" "snd (snd ?rA) = [StatusVerifying 1]"
    "tx (fst (snd ?rA)) = [(''dev'', createCommand 0x1D [1]), (''dev'', createCommand 0x96 []),
         (''dev'', createCommand 0x96 [])]"
    by (simp_all only: rA fst_conv snd_conv tA)
  have nB: "?nB = 2" by code_simp
  have vB: "attemptVerified (writeFailsAt 0) (statusTrueFrom 0) ''dev'' 0x1D 1 initialState (?nB - 1)"
    by code_simp
  have eB: "[] @ map (attemptEvent (writeFailsAt 0) ''dev'' 0x1D 1 initialState) [0..<?nB]
      = [ConsoleRetryError (JsError (Some ''write failed'')), StatusVerifying 2]"
    by code_simp
  from sendRobustCommand_bounded_retry
    [of "writeFailsAt 0" "statusTrueFrom 0" "''dev''" "0x1D" 1 initialState "[]", unfolded Let_def]
  have "?rB = (Inr (attemptVerified (writeFailsAt 0) (statusTrueFrom 0) ''dev'' 0x1D 1
                     initialState (?nB - 1)),
               stateBeforeAttempt (writeFailsAt 0) ''dev'' 0x1D 1 initialState ?nB,
               [] @ map (attemptEvent (writeFailsAt 0) ''dev'' 0x1D 1 initialState) [0..<?nB])"
    by blast
  then have rB: "?rB = (Inr True,
               stateBeforeAttempt (writeFailsAt 0) ''dev'' 0x1D 1 initialState ?nB,
               [ConsoleRetryError (JsError (Some ''write failed'')), StatusVerifying 2])"
    using vB by (simp only: eB)
  have B: "fst ?rB = Inr True"
    "snd (snd ?rB) = [ConsoleRetryError (JsError (Some ''write failed'')), StatusVerifying 2]"
    by (simp_all only: rB fst_conv snd_conv)
  have nC: "?nC = 3" by code_simp
  have vC: "\<not> attemptVerified (writeFailsAt 4) (statusTrueFrom 5) ''dev'' 0x1D 1 initialState (?nC - 1)"
    by code_simp
  have eC: "[] @ map (attemptEvent (writeFailsAt 4) ''dev'' 0x1D 1 initialState) [0..<?nC]
      = [StatusVerifying 1, ConsoleRetryError (JsError (Some ''write failed'')),
         StatusVerifying 3]"
    by code_simp
  from sendRobustCommand_bounded_retry
    [of "writeFailsAt 4" "statusTrueFrom 5" "''dev''" "0x1D" 1 initialState "[]", unfolded Let_def]
  have "?rC = (Inr (attemptVerified (writeFailsAt 4) (statusTrueFrom 5) ''dev'' 0x1D 1
                     initialState (?nC - 1)),
               stateBeforeAttempt (writeFailsAt 4) ''dev'' 0x1D 1 initialState ?nC,
               [] @ map (attemptEvent (writeFailsAt 4) ''dev'' 0x1D 1 initialState) [0..<?nC])"
    by blast
  then have rC: "?rC = (Inr False,
               stateBeforeAttempt (writeFailsAt 4) ''dev'' 0x1D 1 initialState ?nC,
               [StatusVerifying 1, ConsoleRetryError (JsError (Some ''write failed'')),
                StatusVerifying 3])"
    using vC by (simp only: eC)
  have C: "fst ?rC = Inr False"
    "snd (snd ?rC) = [StatusVerifying 1, ConsoleRetryError (JsError (Some ''write failed'')),
         StatusVerifying 3]"
    by (simp_all only: rC fst_conv snd_conv)
  from nA A nB B nC C show ?thesis by blast
qed

subsection \<open>Errors of the transport\<close>

text \<open>
  C8, as stated: \<open>disconnect\<close> returns normally when \<open>cancelDeviceConnection\<close> or
  \<open>isDeviceConnected\<close> rejects, and \<open>connect\<close> returns normally when \<open>connectToDevice\<close>
  rejects with a message that includes \<open>already connected\<close>.
\<close>

theorem transport_errors_counterexample:
  "fst (disconnect (Inr True) (Some (JsError (Some ''cancel failed''))) initialState ''dev'')
     = Inr ()
   \<and> fst (disconnect (Inl (JsError (Some ''not reachable''))) None initialState ''dev'')
     = Inr ()
   \<and> fst (connect (Some (JsError (Some ''Device is already connected''))) None
            initialState ''dev'') = Inr ()"
  by code_simp

text \<open>
  C8, amended. \<open>sendCommand\<close> throws the error of a write that rejects, and returns
  normally otherwise. \<open>connect\<close> throws the error of the first of its two transport
  calls that rejects, unless the message of that error includes \<open>already connected\<close>:
  then it returns normally. \<open>disconnect\<close> never throws: whatever the transport
  answers, it returns normally and leaves the state it leaves when the device is
  already disconnected.
\<close>

theorem transport_errors:
  "(wr (length (tx s)) = Some e \<longrightarrow> fst (sendCommand wr s deviceId commandByte payload) = Inl e)
   \<and> (wr (length (tx s)) = None \<longrightarrow> fst (sendCommand wr s deviceId commandByte payload) = Inr ())
   \<and> ((connectResult = Some e \<or> connectResult = None \<and> discoverResult = Some e) \<longrightarrow>
        fst (connect connectResult discoverResult s deviceId) =
          (if (\<exists>m. message e = Some m \<and> sublist ''already connected'' m)
           then Inr () else Inl e))
   \<and> fst (disconnect isConnectedResult cancelResult s deviceId) = Inr ()
   \<and> disconnect isConnectedResult cancelResult s deviceId
       = disconnect (Inr False) None s deviceId"
proof -
  have c: "(connectResult = Some e \<or> connectResult = None \<and> discoverResult = Some e) \<longrightarrow>
        fst (connect connectResult discoverResult s deviceId) =
          (if (\<exists>m. message e = Some m \<and> sublist ''already connected'' m)
           then Inr () else Inl e)"
    by (cases "message e") (auto simp: connect_def Let_def includes_str_sublist)
  have d: "disconnect isConnectedResult cancelResult s deviceId
       = disconnect (Inr False) None s deviceId"
    by (simp add: disconnect_def Let_def split: sum.splits option.splits)
  have d0: "fst (disconnect (Inr False) None s deviceId) = Inr ()"
    by (simp add: disconnect_def Let_def)
  from c d d0 show ?thesis by (simp add: fst_sendCommand)
qed

text \<open>
  A transport whose first write rejects with \<open>write failed\<close>, and the same error from
  \<open>connectToDevice\<close> and from \<open>cancelDeviceConnection\<close>.
\<close>

theorem transport_errors_witness:
  "writeFailsAt 0 (length (tx initialState)) = Some (JsError (Some ''write failed''))
   \<and> fst (sendCommand (writeFailsAt 0) initialState ''dev'' 0x96 [])
       = Inl (JsError (Some ''write failed''))
   \<and> fst (connect (Some (JsError (Some ''write failed''))) None initialState ''dev'')
       = Inl (JsError (Some ''write failed''))
   \<and> fst (disconnect (Inr True) (Some (JsError (Some ''write failed''))) initialState ''dev'')
       = Inr ()"
proof -
  let ?e = "JsError (Some ''write failed'')"
  have h: "writeFailsAt 0 (length (tx initialState)) = Some ?e"
    by (simp add: writeFailsAt_def initialState_def)
  have ns: "\<not> sublist ''already connected'' ''write failed''" by code_simp
  then have n: "\<not> (\<exists>m. message ?e = Some m \<and> sublist ''already connected'' m)" by simp
  note t = transport_errors [of "writeFailsAt 0" initialState ?e "''dev''" "0x96" "[]"
      "Some ?e" None "Inr True" "Some ?e"]
  from t h have a: "fst (sendCommand (writeFailsAt 0) initialState ''dev'' 0x96 []) = Inl ?e"
    by blast
  from t have "fst (connect (Some ?e) None initialState ''dev'') =
      (if (\<exists>m. message ?e = Some m \<and> sublist ''already connected'' m) then Inr () else Inl ?e)"
    by blast
  with n have b: "fst (connect (Some ?e) None initialState ''dev'') = Inl ?e"
    by (simp only: if_False)
  from t have c: "fst (disconnect (Inr True) (Some ?e) initialState ''dev'') = Inr ()"
    by blast
  from h a b c show ?thesis by blast
qed

subsection \<open>Authorization before a control command\<close>

lemma commandBytes_nth4: "commandBytes c p ! 4 = word_of_int c"
  by (simp add: commandBytes_eq Let_def)

lemma commandBytes_nth5: "commandBytes c p ! 5 = of_nat (length p)"
  by (simp add: commandBytes_eq Let_def)

lemma createCommand_empty_neq:
  "createCommand 0x05 [] \<noteq> createCommand register [val]"
  "createCommand 0x05 [] \<noteq> createCommand 0x96 []"
proof -
  have "commandBytes 0x05 [] ! 5 \<noteq> commandBytes register [val] ! 5"
    by (simp add: commandBytes_nth5)
  then have "commandBytes 0x05 [] \<noteq> commandBytes register [val]" by metis
  then show "createCommand 0x05 [] \<noteq> createCommand register [val]"
    by (simp add: createCommand_def toString_base64_inject)
  have "commandBytes 0x05 [] ! 4 \<noteq> commandBytes 0x96 [] ! 4"
    by (simp add: commandBytes_nth4)
  then have "commandBytes 0x05 [] \<noteq> commandBytes 0x96 []" by metis
  then show "createCommand 0x05 [] \<noteq> createCommand 0x96 []"
    by (simp add: createCommand_def toString_base64_inject)
qed

lemma handleData_setupPasscode:
  assumes "mounted ui" "ftype ev = 0x03" "length (fdata ev) \<ge> 134"
  shows "setupPasscode (snd (handleData (ui, ble) ev))
     = bufferToAscii (slice_buf (fdata ev) 118 134)"
  using assms
  by (simp add: handleData_def Let_def setProtocolOffset_def setSetupPasscode_def)

lemma handleData_setupPasscode_null:
  assumes "mounted ui" "ftype ev = 0x03" "length (fdata ev) \<ge> 134" "fdata ev ! 118 = 0"
  shows "setupPasscode (snd (handleData (ui, ble) ev)) = []"
proof -
  have "drop 118 (fdata ev) = fdata ev ! 118 # drop 119 (fdata ev)"
    using Cons_nth_drop_Suc [of 118 "fdata ev"] assms(3) by simp
  with assms(4) have "bufferToAscii (slice_buf (fdata ev) 118 134) = []"
    by (simp add: slice_buf_def take_Cons')
  with handleData_setupPasscode [OF assms(1-3)] show ?thesis by simp
qed

lemma handleData_isAuthorized:
  "isAuthorized (snd (handleData (ui, ble) ev)) = isAuthorized ble"
  by (simp add: handleData_def Let_def setProtocolOffset_def setSetupPasscode_def)

text \<open>
  C10. When the stored setup passcode is the empty string, \<open>sendControlCommand\<close> does
  not call \<open>sendAuthorization\<close>: it writes the control command and, when that write
  resolves, the status refresh \<open>0x96\<close>, and nothing else. The authorization command
  (opcode \<open>0x05\<close> with the passcode as payload) is not among the frames written, and
  \<open>isAuthorized\<close> keeps its value, so an unauthorized session stays unauthorized. By
  \<open>handleData_setupPasscode_null\<close> the stored passcode is empty after a device-info
  frame whose byte 118 is zero.
\<close>

theorem control_without_authorization:
  "setupPasscode s = [] \<Longrightarrow>
   (let r = sendControlCommand wr s deviceId register val;
        sent = drop (length (tx s)) (tx (snd r))
    in take (length (tx s)) (tx (snd r)) = tx s
       \<and> sent = (deviceId, createCommand register [val])
               # (if wr (length (tx s)) = None then [(deviceId, createCommand 0x96 [])] else [])
       \<and> (deviceId, createCommand 0x05 (utf8_bytes (setupPasscode s))) \<notin> set sent
       \<and> isAuthorized (snd r) = isAuthorized s
       \<and> r = (case sendCommand wr s deviceId register [val] of
                 (Inl e, s2) \<Rightarrow> (Inl e, s2)
               | (Inr u, s2) \<Rightarrow> sendCommand wr s2 deviceId 0x96 []))"
  using createCommand_empty_neq(1) [of register val] createCommand_empty_neq(2)
  by (simp add: sendControlCommand_def sendCommand_def Let_def utf8_bytes_def
      split: option.splits)

text \<open>
  A new session that has received a device-info frame with an empty setup passcode, and
  then sends the command that switches the charge MOSFET on.
\<close>

theorem control_without_authorization_witness:
  "fdata (deviceInfoFrame ''JK_BD6.0'' ''11.XW'' []) ! 118 = 0
   \<and> setupPasscode (snd (handleData (initialScreen, initialState)
        (deviceInfoFrame ''JK_BD6.0'' ''11.XW'' []))) = []
   \<and> \<not> isAuthorized (snd (handleData (initialScreen, initialState)
        (deviceInfoFrame ''JK_BD6.0'' ''11.XW'' [])))
   \<and> tx (snd (sendControlCommand (writeFailsAt 2)
        (snd (handleData (initialScreen, initialState)
           (deviceInfoFrame ''JK_BD6.0'' ''11.XW'' []))) ''dev'' 0x1D 1))
       = [(''dev'', createCommand 0x1D [1]), (''dev'', createCommand 0x96 [])]
   \<and> \<not> isAuthorized (snd (sendControlCommand (writeFailsAt 2)
        (snd (handleData (initialScreen, initialState)
           (deviceInfoFrame ''JK_BD6.0'' ''11.XW'' []))) ''dev'' 0x1D 1))"
proof -
  let ?ev = "deviceInfoFrame ''JK_BD6.0'' ''11.XW'' []"
  let ?s = "snd (handleData (initialScreen, initialState) ?ev)"
  let ?r = "sendControlCommand (writeFailsAt 2) ?s ''dev'' 0x1D 1"
  have z: "fdata ?ev ! 118 = 0" by code_simp
  have m: "mounted initialScreen" "ftype ?ev = 0x03" "length (fdata ?ev) \<ge> 134"
    by code_simp+
  have p: "setupPasscode ?s = []"
    using m z by (rule handleData_setupPasscode_null)
  have a: "\<not> isAuthorized ?s"
    by (simp add: handleData_isAuthorized initialState_def)
  have t: "tx ?s = []" by code_simp
  have w: "writeFailsAt 2 (length (tx ?s)) = None" by (simp add: t writeFailsAt_def)
  have w0: "writeFailsAt 2 0 = None" by (simp add: writeFailsAt_def)
  note c = control_without_authorization [OF p, of "writeFailsAt 2" "''dev''" "0x1D" 1,
      unfolded Let_def]
  from c have "drop (length (tx ?s)) (tx (snd ?r))
      = (''dev'', createCommand 0x1D [1])
        # (if writeFailsAt 2 (length (tx ?s)) = None then [(''dev'', createCommand 0x96 [])] else [])"
    by blast
  then have sent: "tx (snd ?r) = [(''dev'', createCommand 0x1D [1]), (''dev'', createCommand 0x96 [])]"
    by (simp add: t w0)
  from c a have b: "\<not> isAuthorized (snd ?r)" by blast
  from z p a sent b show ?thesis by blast
qed

end
